theory Spec2Isabelle
  imports Main
begin

section \<open>ECMAScript Set: insertion-ordered entries with live iteration\<close>

text \<open>
  The registries of the SDK are JavaScript \<^verbatim>\<open>Set\<close> objects keyed by function
  reference. A function reference is modelled by an identifier \<open>hid\<close>. The entries of a
  Set are the list the language definition calls SetData: \<^verbatim>\<open>add\<close> appends a value
  that is not yet present, \<^verbatim>\<open>delete\<close> and \<^verbatim>\<open>clear\<close> overwrite entries with the
  empty marker (here \<open>None\<close>) and never shift the others, and \<^verbatim>\<open>forEach\<close> walks
  the list by index, reading its length again after every callback.
\<close>

type_synonym hid = nat

type_synonym 'a setdata = "'a option list"

definition set_has :: "'a setdata \<Rightarrow> 'a \<Rightarrow> bool" where
  "set_has S x = (Some x \<in> set S)"

definition set_add :: "'a setdata \<Rightarrow> 'a \<Rightarrow> 'a setdata" where
  "set_add S x = (if set_has S x then S else S @ [Some x])"

definition set_delete :: "'a setdata \<Rightarrow> 'a \<Rightarrow> 'a setdata" where
  "set_delete S x = map (\<lambda>e. if e = Some x then None else e) S"

definition set_clear :: "'a setdata \<Rightarrow> 'a setdata" where
  "set_clear S = map (\<lambda>e. None) S"

text \<open>The values still present from index \<open>i\<close> on, in insertion order.\<close>

definition pending :: "nat \<Rightarrow> 'a setdata \<Rightarrow> 'a list" where
  "pending i S = List.map_filter id (drop i S)"

definition members :: "'a setdata \<Rightarrow> 'a list" where
  "members S = pending 0 S"

definition set_size :: "'a setdata \<Rightarrow> nat" where
  "set_size S = length (members S)"

text \<open>
  \<^verbatim>\<open>Set.prototype.forEach\<close>. The callback works on a state of which the Set is
  the component \<open>sel\<close>, and either returns the new state or throws; a throw leaves
  the loop with the state reached so far. A callback that keeps adding values keeps
  the loop running, which is the value \<open>None\<close>.
\<close>

partial_function (option) Set_forEach ::
  "('st \<Rightarrow> 'a setdata) \<Rightarrow> ('a \<Rightarrow> 'st \<Rightarrow> ('e \<times> 'st) + 'st) \<Rightarrow> nat \<Rightarrow> 'st
     \<Rightarrow> (('e \<times> 'st) + 'st) option" where
  "Set_forEach sel cb i s =
     (if i < length (sel s) then
        (case sel s ! i of
           None \<Rightarrow> Set_forEach sel cb (Suc i) s
         | Some h \<Rightarrow>
             (case cb h s of
                Inl thrown \<Rightarrow> Some (Inl thrown)
              | Inr s' \<Rightarrow> Set_forEach sel cb (Suc i) s'))
      else Some (Inr s))"

text \<open>The same walk over a fixed list of values: what \<open>Set_forEach\<close> does when no
  callback changes the entries still ahead.\<close>

fun run :: "('a \<Rightarrow> 'st \<Rightarrow> ('e \<times> 'st) + 'st) \<Rightarrow> 'a list \<Rightarrow> 'st \<Rightarrow> ('e \<times> 'st) + 'st" where
  "run cb [] s = Inr s"
| "run cb (h # hs) s = (case cb h s of Inl thrown \<Rightarrow> Inl thrown | Inr s' \<Rightarrow> run cb hs s')"

section \<open>JSON values and \<^verbatim>\<open>JSON.parse\<close>\<close>

text \<open>
  \<^verbatim>\<open>JSON.parse\<close> belongs to the JavaScript runtime, not to the SDK. The dispatcher
  below takes it as a parameter \<open>parse\<close> (\<open>None\<close> when it throws SyntaxError), so
  every theorem about the dispatcher holds for whatever the runtime's parser does.
  \<open>JSON_parse\<close> is a reference parser for the JSON grammar, used where a concrete
  parser has to be run. It decides syntactic validity; of the values it keeps a
  number as its text (rounding to a double is not modelled) and a \<^verbatim>\<open>\u\<close> escape
  as the six characters written.
\<close>

datatype json =
    JNull
  | JBool bool
  | JNumber string
  | JString string
  | JArray "json list"
  | JObject "(string \<times> json) list"

definition is_ws :: "char \<Rightarrow> bool" where
  "is_ws c = (c = CHR '' '' \<or> c = CHR 0x09 \<or> c = CHR 0x0A \<or> c = CHR 0x0D)"

definition skip_ws :: "string \<Rightarrow> string" where
  "skip_ws s = dropWhile is_ws s"

definition is_digit :: "char \<Rightarrow> bool" where
  "is_digit c = (c \<in> set ''0123456789'')"

definition is_hex :: "char \<Rightarrow> bool" where
  "is_hex c = (is_digit c \<or> c \<in> set ''abcdefABCDEF'')"

definition literal :: "string \<Rightarrow> string \<Rightarrow> string option" where
  "literal w s = (if take (length w) s = w then Some (drop (length w) s) else None)"

definition digits :: "string \<Rightarrow> string \<times> string" where
  "digits s = (takeWhile is_digit s, dropWhile is_digit s)"

definition parse_number :: "string \<Rightarrow> (string \<times> string) option" where
  "parse_number s =
     (let (sign, s1) = (case literal ''-'' s of Some r \<Rightarrow> (''-'', r) | None \<Rightarrow> ([], s));
          (ip, s2) = digits s1
      in if ip = [] \<or> (hd ip = CHR ''0'' \<and> length ip > 1 ) then None
         else
           (case (case literal ''.'' s2 of
                    None \<Rightarrow> Some ([], s2)
                  | Some r \<Rightarrow> (let (fp, s3) = digits r in if fp = [] then None else Some (CHR ''.'' # fp, s3))) of
              None \<Rightarrow> None
            | Some (frac, s3) \<Rightarrow>
                (case s3 of
                   c # r \<Rightarrow>
                     if c = CHR ''e'' \<or> c = CHR ''E'' then
                       (let (es, r1) = (case r of d # r' \<Rightarrow> if d = CHR ''+'' \<or> d = CHR ''-'' then ([d], r') else ([], r) | [] \<Rightarrow> ([], r));
                            (ep, r2) = digits r1
                        in if ep = [] then None else Some (sign @ ip @ frac @ c # es @ ep, r2))
                     else Some (sign @ ip @ frac, s3)
                 | [] \<Rightarrow> Some (sign @ ip @ frac, s3))))"

fun parse_chars :: "string \<Rightarrow> (string \<times> string) option" where
  "parse_chars [] = None"
| "parse_chars (c # cs) =
     (if c = CHR 0x22 then Some ([], cs)
      else if of_char c < (32::nat) then None
      else if c = CHR 0x5C then
        (case cs of
           [] \<Rightarrow> None
         | e # r \<Rightarrow>
             if e = CHR ''u'' then
               (if length r \<ge> 4 \<and> list_all is_hex (take 4 r)
                then map_option (\<lambda>(t, rest). (c # e # take 4 r @ t, rest)) (parse_chars (drop 4 r))
                else None)
             else
               (case map_of [(CHR 0x22, CHR 0x22), (CHR 0x5C, CHR 0x5C), (CHR ''/'', CHR ''/''),
                             (CHR ''b'', CHR 0x08), (CHR ''f'', CHR 0x0C), (CHR ''n'', CHR 0x0A),
                             (CHR ''r'', CHR 0x0D), (CHR ''t'', CHR 0x09)] e of
                  None \<Rightarrow> None
                | Some d \<Rightarrow> map_option (\<lambda>(t, rest). (d # t, rest)) (parse_chars r)))
      else map_option (\<lambda>(t, rest). (c # t, rest)) (parse_chars cs))"

fun parse_value :: "nat \<Rightarrow> string \<Rightarrow> (json \<times> string) option"
  and parse_elements :: "nat \<Rightarrow> string \<Rightarrow> (json list \<times> string) option"
  and parse_members :: "nat \<Rightarrow> string \<Rightarrow> ((string \<times> json) list \<times> string) option"
where
  "parse_value 0 s = None"
| "parse_value (Suc n) s =
     (case skip_ws s of
        [] \<Rightarrow> None
      | c # cs \<Rightarrow>
          if c = CHR ''n'' then map_option (Pair JNull) (literal ''ull'' cs)
          else if c = CHR ''t'' then map_option (Pair (JBool True)) (literal ''rue'' cs)
          else if c = CHR ''f'' then map_option (Pair (JBool False)) (literal ''alse'' cs)
          else if c = CHR 0x22 then map_option (\<lambda>(t, rest). (JString t, rest)) (parse_chars cs)
          else if c = CHR ''['' then
            (case skip_ws cs of
               [] \<Rightarrow> None
             | d # ds \<Rightarrow> if d = CHR '']'' then Some (JArray [], ds)
                         else map_option (\<lambda>(vs, rest). (JArray vs, rest)) (parse_elements n cs))
          else if c = CHR ''{'' then
            (case skip_ws cs of
               [] \<Rightarrow> None
             | d # ds \<Rightarrow> if d = CHR ''}'' then Some (JObject [], ds)
                         else map_option (\<lambda>(ms, rest). (JObject ms, rest)) (parse_members n cs))
          else map_option (\<lambda>(t, rest). (JNumber t, rest)) (parse_number (c # cs)))"
| "parse_elements 0 s = None"
| "parse_elements (Suc n) s =
     (case parse_value n s of
        None \<Rightarrow> None
      | Some (v, r) \<Rightarrow>
          (case skip_ws r of
             [] \<Rightarrow> None
           | d # ds \<Rightarrow>
               if d = CHR '']'' then Some ([v], ds)
               else if d = CHR '','' then map_option (\<lambda>(vs, rest). (v # vs, rest)) (parse_elements n ds)
               else None))"
| "parse_members 0 s = None"
| "parse_members (Suc n) s =
     (case skip_ws s of
        [] \<Rightarrow> None
      | q # s1 \<Rightarrow>
          if q \<noteq> CHR 0x22 then None
          else
            (case parse_chars s1 of
               None \<Rightarrow> None
             | Some (k, s2) \<Rightarrow>
                 (case skip_ws s2 of
                    [] \<Rightarrow> None
                  | col # s3 \<Rightarrow>
                      if col \<noteq> CHR '':'' then None
                      else
                        (case parse_value n s3 of
                           None \<Rightarrow> None
                         | Some (v, r) \<Rightarrow>
                             (case skip_ws r of
                                [] \<Rightarrow> None
                              | d # ds \<Rightarrow>
                                  if d = CHR ''}'' then Some ([(k, v)], ds)
                                  else if d = CHR '','' then
                                    map_option (\<lambda>(ms, rest). ((k, v) # ms, rest)) (parse_members n ds)
                                  else None)))))"

definition JSON_parse :: "string \<Rightarrow> json option" where
  "JSON_parse s =
     (case parse_value (Suc (length s)) s of
        None \<Rightarrow> None
      | Some (v, rest) \<Rightarrow> if skip_ws rest = [] then Some v else None)"


section \<open>LLM and messaging module (\<^verbatim>\<open>src/llm/index.ts\<close>)\<close>

datatype error =
    Error string  \<comment> \<open>\<^verbatim>\<open>new Error(message)\<close>\<close>
  | Thrown hid    \<comment> \<open>whatever the consumer function \<open>hid\<close> threw\<close>

record MessageOptions =
  wantsR1Response :: "bool option"
  wantsJournalEntry :: "bool option"
  useLLM :: "bool option"
  useSerpAPI :: "bool option"
  pluginId :: "string option"
  imageBase64 :: "string option"

text \<open>\<^verbatim>\<open>PluginMessage\<close>: the options and the required \<open>message\<close>.\<close>

record PluginMessage = MessageOptions +
  message :: string

text \<open>
  \<^verbatim>\<open>JSON.stringify\<close> is the runtime's too and is a parameter \<open>stringify\<close> of
  \<open>sendMessage\<close>. \<open>JSON_stringify\<close> is a reference serializer of a payload, used where a
  concrete one has to be run: properties that are \<^verbatim>\<open>undefined\<close> are left out, strings are
  quoted and escaped. It writes \<open>message\<close> first and the options in the order of the
  interface (JavaScript keeps the order in which the caller set them).
\<close>

definition hex_digit :: "nat \<Rightarrow> char" where
  "hex_digit n = ''0123456789abcdef'' ! (n mod 16)"

definition escape_char :: "char \<Rightarrow> string" where
  "escape_char c =
     (if c = CHR 0x22 then [CHR 0x5C, CHR 0x22]
      else if c = CHR 0x5C then [CHR 0x5C, CHR 0x5C]
      else if c = CHR 0x08 then [CHR 0x5C, CHR ''b'']
      else if c = CHR 0x0C then [CHR 0x5C, CHR ''f'']
      else if c = CHR 0x0A then [CHR 0x5C, CHR ''n'']
      else if c = CHR 0x0D then [CHR 0x5C, CHR ''r'']
      else if c = CHR 0x09 then [CHR 0x5C, CHR ''t'']
      else if of_char c < (32::nat) then
        [CHR 0x5C, CHR ''u'', CHR ''0'', CHR ''0'', hex_digit (of_char c div 16), hex_digit (of_char c)]
      else [c])"

definition quote :: "string \<Rightarrow> string" where
  "quote s = CHR 0x22 # concat (map escape_char s) @ [CHR 0x22]"

definition bool_property :: "string \<Rightarrow> bool option \<Rightarrow> string" where
  "bool_property k v =
     (case v of None \<Rightarrow> [] | Some b \<Rightarrow> '','' @ quote k @ '':'' @ (if b then ''true'' else ''false''))"

definition string_property :: "string \<Rightarrow> string option \<Rightarrow> string" where
  "string_property k v = (case v of None \<Rightarrow> [] | Some t \<Rightarrow> '','' @ quote k @ '':'' @ quote t)"

definition JSON_stringify :: "PluginMessage \<Rightarrow> string" where
  "JSON_stringify p =
     ''{'' @ quote ''message'' @ '':'' @ quote (PluginMessage.message p)
       @ bool_property ''useLLM'' (useLLM p)
       @ bool_property ''useSerpAPI'' (useSerpAPI p)
       @ bool_property ''wantsR1Response'' (wantsR1Response p)
       @ bool_property ''wantsJournalEntry'' (wantsJournalEntry p)
       @ string_property ''pluginId'' (MessageOptions.pluginId p)
       @ string_property ''imageBase64'' (imageBase64 p)
       @ ''}''"

text \<open>The host: \<open>PluginMessageHandler\<close> is \<open>None\<close> when
  \<^verbatim>\<open>typeof PluginMessageHandler === 'undefined'\<close>, otherwise it holds the strings
  handed to \<^verbatim>\<open>postMessage\<close> so far.\<close>

record host_env =
  PluginMessageHandler :: "string list option"

text \<open>The body of \<^verbatim>\<open>sendMessage\<close>: \<open>Inl\<close> is what the \<^verbatim>\<open>throw\<close> statement throws, \<open>Inr\<close>
  the host after \<^verbatim>\<open>postMessage\<close>. \<^verbatim>\<open>JSON.stringify\<close> is the parameter \<open>stringify\<close>.\<close>

definition sendMessage_body ::
  "(PluginMessage \<Rightarrow> string) \<Rightarrow> string \<Rightarrow> MessageOptions \<Rightarrow> host_env \<Rightarrow> error + host_env" where
  "sendMessage_body stringify msg options env =
     (let payload = MessageOptions.extend options (PluginMessage.fields msg)
      in case PluginMessageHandler env of
           Some posted \<Rightarrow> Inr (env\<lparr>PluginMessageHandler := Some (posted @ [stringify payload])\<rparr>)
         | None \<Rightarrow>
             Inl (Error ''PluginMessageHandler not available. Make sure you are running in R1 environment.''))"

text \<open>
  \<^verbatim>\<open>sendMessage\<close> is declared \<^verbatim>\<open>async\<close>. A call of an \<^verbatim>\<open>async\<close> function does not throw
  to its caller: it runs the body and returns a promise, and what the body throws
  rejects that promise. The result of a call is \<open>Inl\<close> for an exception thrown to the
  caller and \<open>Inr\<close> for the promise returned, with the host as the call left it. The
  body has no \<^verbatim>\<open>await\<close>, so the promise is settled when the call returns.
\<close>

datatype 'a promise = Fulfilled 'a | Rejected error

definition sendMessage ::
  "(PluginMessage \<Rightarrow> string) \<Rightarrow> string \<Rightarrow> MessageOptions \<Rightarrow> host_env
     \<Rightarrow> error + (unit promise \<times> host_env)" where
  "sendMessage stringify msg options env =
     (case sendMessage_body stringify msg options env of
        Inl thrown \<Rightarrow> Inr (Rejected thrown, env)
      | Inr env' \<Rightarrow> Inr (Fulfilled (), env'))"

record PluginMessageResponse =
  message :: string
  pluginId :: string
  data :: "string option"

text \<open>\<^verbatim>\<open>PluginMessageResponse & { parsedData?: T }\<close>; \<open>None\<close> is \<^verbatim>\<open>undefined\<close>.\<close>

record enhancedData = PluginMessageResponse +
  parsedData :: "json option"

text \<open>The first half of the inbound slot: \<^verbatim>\<open>if (data.data)\<close> is false for a missing
  field and for the empty string; the inner \<^verbatim>\<open>catch\<close> keeps the raw string.\<close>

definition parsedData_of :: "(string \<Rightarrow> json option) \<Rightarrow> PluginMessageResponse \<Rightarrow> json option" where
  "parsedData_of parse d =
     (case data d of
        None \<Rightarrow> None
      | Some raw \<Rightarrow>
          if raw = [] then None
          else (case parse raw of Some v \<Rightarrow> Some v | None \<Rightarrow> Some (JString raw)))"

definition enhance :: "(string \<Rightarrow> json option) \<Rightarrow> PluginMessageResponse \<Rightarrow> enhancedData" where
  "enhance parse d = PluginMessageResponse.extend d (enhancedData.fields (parsedData_of parse d))"

text \<open>
  A response consumer is an arbitrary function. What it can do to the dispatcher is
  call the registry's own methods and then return or throw; \<open>behaviour\<close> gives, for a
  function reference and the envelope it is called with, the registry calls it makes
  and how it completes.
\<close>

datatype action = OnMessage hid | OffMessage hid | RemoveAllHandlers

datatype completion = Returns | Throws

type_synonym behaviour = "hid \<Rightarrow> enhancedData \<Rightarrow> action list \<times> completion"

text \<open>The \<^verbatim>\<open>R1Messaging\<close> object with what is observed of a run: the calls made to
  consumers (\<open>invoked\<close>) and the lines written by \<^verbatim>\<open>console.error\<close>.\<close>

record R1Messaging =
  messageHandlers :: "hid setdata"
  invoked :: "(hid \<times> enhancedData) list"
  console :: "(string \<times> error) list"

definition new_R1Messaging :: R1Messaging where
  "new_R1Messaging = \<lparr>messageHandlers = [], invoked = [], console = []\<rparr>"

definition onMessage :: "hid \<Rightarrow> R1Messaging \<Rightarrow> R1Messaging" where
  "onMessage handler s = s\<lparr>messageHandlers := set_add (messageHandlers s) handler\<rparr>"

definition offMessage :: "hid \<Rightarrow> R1Messaging \<Rightarrow> R1Messaging" where
  "offMessage handler s = s\<lparr>messageHandlers := set_delete (messageHandlers s) handler\<rparr>"

definition removeAllHandlers :: "R1Messaging \<Rightarrow> R1Messaging" where
  "removeAllHandlers s = s\<lparr>messageHandlers := set_clear (messageHandlers s)\<rparr>"

fun perform :: "action \<Rightarrow> R1Messaging \<Rightarrow> R1Messaging" where
  "perform (OnMessage h) s = onMessage h s"
| "perform (OffMessage h) s = offMessage h s"
| "perform RemoveAllHandlers s = removeAllHandlers s"

text \<open>\<^verbatim>\<open>handler(enhancedData)\<close>: the call is recorded, the consumer's registry calls
  take effect, and the call returns or throws.\<close>

definition call_handler ::
  "behaviour \<Rightarrow> enhancedData \<Rightarrow> hid \<Rightarrow> R1Messaging \<Rightarrow> (error \<times> R1Messaging) + R1Messaging" where
  "call_handler beh e h s =
     (let s' = fold perform (fst (beh h e)) (s\<lparr>invoked := invoked s @ [(h, e)]\<rparr>)
      in case snd (beh h e) of Returns \<Rightarrow> Inr s' | Throws \<Rightarrow> Inl (Thrown h, s'))"

text \<open>The body of the \<^verbatim>\<open>forEach\<close> callback: \<^verbatim>\<open>try { handler(enhancedData) } catch (error)
  { console.error('Error in message handler:', error) }\<close>.\<close>

definition try_handler ::
  "behaviour \<Rightarrow> enhancedData \<Rightarrow> hid \<Rightarrow> R1Messaging \<Rightarrow> (error \<times> R1Messaging) + R1Messaging" where
  "try_handler beh e h s =
     (case call_handler beh e h s of
        Inr s' \<Rightarrow> Inr s'
      | Inl (err, s') \<Rightarrow> Inr (s'\<lparr>console := console s' @ [(''Error in message handler:'', err)]\<rparr>))"

text \<open>\<^verbatim>\<open>window.onPluginMessage\<close> as installed by \<^verbatim>\<open>initializeMessageHandler\<close>. The
  result is \<open>None\<close> when the loop over the handlers does not end, \<open>Some (Inl _)\<close> if
  an exception left the slot, \<open>Some (Inr _)\<close> when it returned to the host.\<close>

definition onPluginMessage ::
  "(string \<Rightarrow> json option) \<Rightarrow> behaviour \<Rightarrow> PluginMessageResponse \<Rightarrow> R1Messaging
     \<Rightarrow> ((error \<times> R1Messaging) + R1Messaging) option" where
  "onPluginMessage parse beh d s =
     (let enhancedData = enhance parse d
      in case Set_forEach messageHandlers (try_handler beh enhancedData) 0 s of
           None \<Rightarrow> None
         | Some (Inr s') \<Rightarrow> Some (Inr s')
         | Some (Inl (err, s')) \<Rightarrow>
             Some (Inr (s'\<lparr>console := console s' @ [(''Error processing plugin message:'', err)]\<rparr>)))"

text \<open>The calls made to consumers between two states of a run.\<close>

definition delivered :: "R1Messaging \<Rightarrow> R1Messaging \<Rightarrow> (hid \<times> enhancedData) list" where
  "delivered s s' = drop (length (invoked s)) (invoked s')"

section \<open>Hardware events and device controls
  (\<^verbatim>\<open>HardwareEvents\<close> of \<^verbatim>\<open>src/storage/index.ts\<close>, \<^verbatim>\<open>src/hardware/device-controls.ts\<close>)\<close>

datatype HardwareEventType = sideClick | longPressStart | longPressEnd | scrollUp | scrollDown

text \<open>The event types the two modules listen for on \<^verbatim>\<open>window\<close>.\<close>

datatype window_event_type = Hardware HardwareEventType | keydown

text \<open>An event object: its \<^verbatim>\<open>type\<close>, \<^verbatim>\<open>code\<close> (\<^verbatim>\<open>undefined\<close> unless it is a keyboard
  event) and \<^verbatim>\<open>detail.source\<close> (\<^verbatim>\<open>undefined\<close> unless it is a CustomEvent made by
  the device controls).\<close>

record event =
  etype :: window_event_type
  code :: "string option"
  detail_source :: "string option"

datatype direction = up | down

record ScrollWheelData =
  direction :: direction
  event :: "event option"

text \<open>What a consumer is called with: \<^verbatim>\<open>callback()\<close>, \<^verbatim>\<open>handler(event)\<close> or
  \<^verbatim>\<open>handler(data)\<close>.\<close>

datatype args = NoArgs | SideButtonArgs event | ScrollWheelArgs ScrollWheelData

text \<open>
  A consumer of the hardware registries is given by how a call to it completes. This is a
  restriction: such a consumer makes no call back into \<^verbatim>\<open>HardwareEvents\<close> or
  \<^verbatim>\<open>DeviceControls\<close> (\<^verbatim>\<open>on\<close>, \<^verbatim>\<open>off\<close>, \<^verbatim>\<open>removeAllListeners\<close>, \<^verbatim>\<open>init\<close>, the two
  \<^verbatim>\<open>set...Enabled\<close>, \<^verbatim>\<open>triggerSideButton\<close>) while it runs, so the registries and the flags
  are the same before and after each call. The source iterates the live Set of a registry
  with \<^verbatim>\<open>forEach\<close>; for consumers of this kind that is the iteration of the Set as it was
  when the fan-out began, which is what \<open>emit\<close>, \<open>handleSideButtonClick\<close> and
  \<open>handleScrollWheel\<close> below do. Every statement about these three functions and about
  \<open>dispatchEvent\<close> is a statement about consumers of this kind; consumers that call
  back into a registry are modelled for the message registry only (\<open>behaviour\<close>).
\<close>

type_synonym consumers = "hid \<Rightarrow> args \<Rightarrow> completion"

datatype channel = sideButton | scrollWheel

text \<open>The closures the two modules pass to \<^verbatim>\<open>window.addEventListener\<close>.\<close>

datatype listener =
    HardwareEvents_emit HardwareEventType  \<comment> \<open>\<^verbatim>\<open>() => { this.emit(tag) }\<close>\<close>
  | DeviceControls_sideClick
  | DeviceControls_scrollUp
  | DeviceControls_scrollDown
  | DeviceControls_keydown

record DeviceControlsOptions =
  sideButtonEnabled :: "bool option"
  scrollWheelEnabled :: "bool option"
  keyboardFallback :: "bool option"

text \<open>
  The page: the listeners on \<^verbatim>\<open>window\<close> in the order they were added, the
  \<^verbatim>\<open>HardwareEvents\<close> singleton (\<open>listeners\<close>), the \<^verbatim>\<open>DeviceControls\<close> singleton (the
  two flags and \<open>eventListeners\<close>), and what is observed of a run: the calls made to
  consumers and the exceptions that left a \<^verbatim>\<open>window\<close> listener.
  Every \<^verbatim>\<open>addEventListener\<close> call of the source passes a new closure, so the
  browser never merges two of them: \<open>window_listeners\<close> keeps duplicates.
\<close>

record system =
  window_listeners :: "(window_event_type \<times> listener) list"
  listeners :: "HardwareEventType \<Rightarrow> hid setdata option"
  sideButtonEnabled :: bool
  scrollWheelEnabled :: bool
  eventListeners :: "channel \<Rightarrow> hid setdata option"
  calls :: "(hid \<times> args) list"
  uncaught :: "error list"

definition addEventListener :: "window_event_type \<Rightarrow> listener \<Rightarrow> system \<Rightarrow> system" where
  "addEventListener ty l s = s\<lparr>window_listeners := window_listeners s @ [(ty, l)]\<rparr>"

subsection \<open>\<^verbatim>\<open>HardwareEvents\<close>\<close>

definition HardwareEvents_on :: "HardwareEventType \<Rightarrow> hid \<Rightarrow> system \<Rightarrow> system" where
  "HardwareEvents_on ev callback s =
     (case listeners s ev of
        None \<Rightarrow> s\<lparr>listeners := (listeners s)(ev \<mapsto> set_add [] callback)\<rparr>
      | Some S \<Rightarrow> s\<lparr>listeners := (listeners s)(ev \<mapsto> set_add S callback)\<rparr>)"

definition HardwareEvents_off :: "HardwareEventType \<Rightarrow> hid \<Rightarrow> system \<Rightarrow> system" where
  "HardwareEvents_off ev callback s =
     (case listeners s ev of
        None \<Rightarrow> s
      | Some callbacks \<Rightarrow> s\<lparr>listeners := (listeners s)(ev \<mapsto> set_delete callbacks callback)\<rparr>)"

definition removeAllListeners :: "HardwareEventType option \<Rightarrow> system \<Rightarrow> system" where
  "removeAllListeners ev s =
     (case ev of
        Some e \<Rightarrow> s\<lparr>listeners := (listeners s)(e := None)\<rparr>
      | None \<Rightarrow> s\<lparr>listeners := Map.empty\<rparr>)"

definition initializeEventListeners :: "system \<Rightarrow> system" where
  "initializeEventListeners s =
     addEventListener (Hardware scrollDown) (HardwareEvents_emit scrollDown)
       (addEventListener (Hardware scrollUp) (HardwareEvents_emit scrollUp)
         (addEventListener (Hardware longPressEnd) (HardwareEvents_emit longPressEnd)
           (addEventListener (Hardware longPressStart) (HardwareEvents_emit longPressStart)
             (addEventListener (Hardware sideClick) (HardwareEvents_emit sideClick) s))))"

text \<open>One call of a consumer: recorded, then it returns or throws.\<close>

definition call_consumer :: "consumers \<Rightarrow> args \<Rightarrow> hid \<Rightarrow> system \<Rightarrow> (error \<times> system) + system" where
  "call_consumer beh a h s =
     (let s' = s\<lparr>calls := calls s @ [(h, a)]\<rparr>
      in case beh h a of Returns \<Rightarrow> Inr s' | Throws \<Rightarrow> Inl (Thrown h, s'))"

text \<open>\<^verbatim>\<open>emit\<close>: \<^verbatim>\<open>callbacks.forEach(callback => callback())\<close>, with no
  \<^verbatim>\<open>try\<close> around the call. No consumer changes \<open>callbacks\<close> during the loop (see
  \<open>consumers\<close>), so the Set iterated is the one read before the loop.\<close>

definition emit :: "consumers \<Rightarrow> HardwareEventType \<Rightarrow> system \<Rightarrow> ((error \<times> system) + system) option" where
  "emit beh ev s =
     (case listeners s ev of
        None \<Rightarrow> Some (Inr s)
      | Some callbacks \<Rightarrow> Set_forEach (\<lambda>t. callbacks) (call_consumer beh NoArgs) 0 s)"

subsection \<open>\<^verbatim>\<open>DeviceControls\<close>\<close>

text \<open>\<^verbatim>\<open>handleSideButtonClick\<close> and \<^verbatim>\<open>handleScrollWheel\<close>:
  \<^verbatim>\<open>handlers.forEach(handler => handler(...))\<close>, with no \<^verbatim>\<open>try\<close> around the call and, as in
  \<open>emit\<close>, no consumer changing \<open>handlers\<close> during the loop.\<close>

definition handleSideButtonClick :: "consumers \<Rightarrow> event \<Rightarrow> system \<Rightarrow> ((error \<times> system) + system) option" where
  "handleSideButtonClick beh ev s =
     (let handlers = (case eventListeners s sideButton of Some S \<Rightarrow> S | None \<Rightarrow> [])
      in Set_forEach (\<lambda>t. handlers) (call_consumer beh (SideButtonArgs ev)) 0 s)"

definition handleScrollWheel ::
  "consumers \<Rightarrow> ScrollWheelData \<Rightarrow> system \<Rightarrow> ((error \<times> system) + system) option" where
  "handleScrollWheel beh d s =
     (let handlers = (case eventListeners s scrollWheel of Some S \<Rightarrow> S | None \<Rightarrow> [])
      in Set_forEach (\<lambda>t. handlers) (call_consumer beh (ScrollWheelArgs d)) 0 s)"

text \<open>
  \<^verbatim>\<open>window.dispatchEvent\<close>, as the browser does it: the listeners added for the
  event's type are called in the order they were added; an exception that leaves a
  listener is reported and the next listener is called; \<^verbatim>\<open>dispatchEvent\<close> itself
  returns. \<open>deliver\<close> is that loop, \<open>invoke\<close> the call of one listener.
\<close>

fun deliver ::
  "(listener \<Rightarrow> system \<Rightarrow> ((error \<times> system) + system) option) \<Rightarrow> listener list \<Rightarrow> system
     \<Rightarrow> system option" where
  "deliver invoke [] s = Some s"
| "deliver invoke (l # ls) s =
     (case invoke l s of
        None \<Rightarrow> None
      | Some (Inr t) \<Rightarrow> deliver invoke ls t
      | Some (Inl (err, t)) \<Rightarrow> deliver invoke ls (t\<lparr>uncaught := uncaught t @ [err]\<rparr>))"

definition listeners_for :: "window_event_type \<Rightarrow> system \<Rightarrow> listener list" where
  "listeners_for ty s = map snd (filter (\<lambda>p. fst p = ty) (window_listeners s))"

text \<open>The bodies of the listeners are those of \<^verbatim>\<open>initializeEventListeners\<close>,
  \<^verbatim>\<open>setupSideButtonListener\<close>, \<^verbatim>\<open>setupScrollWheelListener\<close> and
  \<^verbatim>\<open>setupKeyboardFallback\<close>; the last one dispatches a new \<^verbatim>\<open>sideClick\<close> event from
  inside the dispatch of the key press.\<close>

function dispatchEvent :: "consumers \<Rightarrow> event \<Rightarrow> system \<Rightarrow> system option" where
  "dispatchEvent beh e s =
     deliver
       (\<lambda>l t. case l of
            HardwareEvents_emit tag \<Rightarrow> emit beh tag t
          | DeviceControls_sideClick \<Rightarrow>
              if \<not> sideButtonEnabled t then Some (Inr t) else handleSideButtonClick beh e t
          | DeviceControls_scrollUp \<Rightarrow>
              if \<not> scrollWheelEnabled t then Some (Inr t)
              else handleScrollWheel beh \<lparr>direction = up, event = Some e\<rparr> t
          | DeviceControls_scrollDown \<Rightarrow>
              if \<not> scrollWheelEnabled t then Some (Inr t)
              else handleScrollWheel beh \<lparr>direction = down, event = Some e\<rparr> t
          | DeviceControls_keydown \<Rightarrow>
              if code e = Some ''Space'' then
                map_option Inr
                  (dispatchEvent beh
                     \<lparr>etype = Hardware sideClick, code = None, detail_source = Some ''keyboard''\<rparr> t)
              else Some (Inr t))
       (listeners_for (etype e) s) s"
  by pat_completeness auto
termination
  by (relation "measure (\<lambda>(beh, e, s). if code e = Some ''Space'' then 1 else 0)") auto

declare dispatchEvent.simps [simp del]

definition setupSideButtonListener :: "system \<Rightarrow> system" where
  "setupSideButtonListener s = addEventListener (Hardware sideClick) DeviceControls_sideClick s"

definition setupScrollWheelListener :: "system \<Rightarrow> system" where
  "setupScrollWheelListener s =
     addEventListener (Hardware scrollDown) DeviceControls_scrollDown
       (addEventListener (Hardware scrollUp) DeviceControls_scrollUp s)"

definition setupKeyboardFallback :: "system \<Rightarrow> system" where
  "setupKeyboardFallback s = addEventListener keydown DeviceControls_keydown s"

definition init :: "DeviceControlsOptions \<Rightarrow> system \<Rightarrow> system" where
  "init options s =
     (let s1 = s\<lparr>sideButtonEnabled :=
                   (case DeviceControlsOptions.sideButtonEnabled options of Some b \<Rightarrow> b | None \<Rightarrow> True),
                 scrollWheelEnabled :=
                   (case DeviceControlsOptions.scrollWheelEnabled options of Some b \<Rightarrow> b | None \<Rightarrow> True)\<rparr>;
          s2 = (if sideButtonEnabled s1 then setupSideButtonListener s1 else s1);
          s3 = (if scrollWheelEnabled s2 then setupScrollWheelListener s2 else s2)
      in if keyboardFallback options \<noteq> Some False then setupKeyboardFallback s3 else s3)"

definition DeviceControls_on :: "channel \<Rightarrow> hid \<Rightarrow> system \<Rightarrow> system" where
  "DeviceControls_on eventType handler s =
     (case eventListeners s eventType of
        None \<Rightarrow> s\<lparr>eventListeners := (eventListeners s)(eventType \<mapsto> set_add [] handler)\<rparr>
      | Some S \<Rightarrow> s\<lparr>eventListeners := (eventListeners s)(eventType \<mapsto> set_add S handler)\<rparr>)"

definition DeviceControls_off :: "channel \<Rightarrow> hid \<Rightarrow> system \<Rightarrow> system" where
  "DeviceControls_off eventType handler s =
     (case eventListeners s eventType of
        None \<Rightarrow> s
      | Some handlers \<Rightarrow> s\<lparr>eventListeners := (eventListeners s)(eventType \<mapsto> set_delete handlers handler)\<rparr>)"

definition setSideButtonEnabled :: "bool \<Rightarrow> system \<Rightarrow> system" where
  "setSideButtonEnabled enabled s = s\<lparr>sideButtonEnabled := enabled\<rparr>"

definition setScrollWheelEnabled :: "bool \<Rightarrow> system \<Rightarrow> system" where
  "setScrollWheelEnabled enabled s = s\<lparr>scrollWheelEnabled := enabled\<rparr>"

definition triggerSideButton :: "consumers \<Rightarrow> system \<Rightarrow> system option" where
  "triggerSideButton beh s =
     dispatchEvent beh
       \<lparr>etype = Hardware sideClick, code = None, detail_source = Some ''programmatic''\<rparr> s"

text \<open>The page once the modules are loaded in a browser: the \<^verbatim>\<open>HardwareEvents\<close>
  constructor has added its five listeners, the \<^verbatim>\<open>DeviceControls\<close> fields have their
  initial values.\<close>

definition boot :: system where
  "boot = initializeEventListeners
     \<lparr>window_listeners = [], listeners = Map.empty, sideButtonEnabled = True,
      scrollWheelEnabled = True, eventListeners = Map.empty, calls = [], uncaught = []\<rparr>"

section \<open>Predicates and examples used by the theorems\<close>

text \<open>A Set never holds a value twice.\<close>

definition wf_set :: "'a setdata \<Rightarrow> bool" where
  "wf_set S = distinct (members S)"

text \<open>A consumer that calls no registry method when it gets envelope \<open>e\<close>, and one
  whose only registry calls remove itself.\<close>

definition leaves_registry :: "behaviour \<Rightarrow> enhancedData \<Rightarrow> hid \<Rightarrow> bool" where
  "leaves_registry beh e h = (fst (beh h e) = [])"

definition removes_only_itself :: "behaviour \<Rightarrow> enhancedData \<Rightarrow> hid \<Rightarrow> bool" where
  "removes_only_itself beh e h = (set (fst (beh h e)) \<subseteq> {OffMessage h})"

text \<open>The \<^verbatim>\<open>console.error\<close> lines of the consumers among \<open>hs\<close> that throw.\<close>

definition thrown_log :: "behaviour \<Rightarrow> enhancedData \<Rightarrow> hid list \<Rightarrow> (string \<times> error) list" where
  "thrown_log beh e hs =
     map (\<lambda>h. (''Error in message handler:'', Thrown h)) (filter (\<lambda>h. snd (beh h e) = Throws) hs)"

definition state_of :: "('e \<times> 'st) + 'st \<Rightarrow> 'st" where
  "state_of r = (case r of Inl (e, t) \<Rightarrow> t | Inr t \<Rightarrow> t)"

subsection \<open>Example consumers and payloads\<close>

definition plain :: behaviour where
  "plain h e = ([], Returns)"


definition removes_next :: behaviour where
  "removes_next h e = (if h = 10 then ([OffMessage 20], Returns) else ([], Returns))"

definition adds_third :: behaviour where
  "adds_third h e = (if h = 10 then ([OnMessage 30], Returns) else ([], Returns))"

definition readds_first :: behaviour where
  "readds_first h e = (if h = 20 then ([OffMessage 10, OnMessage 10], Returns) else ([], Returns))"

definition removes_itself :: behaviour where
  "removes_itself h e = ([OffMessage h], Returns)"

definition scenario_A :: PluginMessageResponse where
  \<open>scenario_A = \<lparr>message = ''hi'', pluginId = ''p1'', data = Some ''{"x":1}''\<rparr>\<close>

definition scenario_B :: PluginMessageResponse where
  "scenario_B = \<lparr>message = ''hi'', pluginId = ''p1'', data = Some ''not json''\<rparr>"

definition empty_data :: PluginMessageResponse where
  "empty_data = \<lparr>message = ''hi'', pluginId = ''p1'', data = Some []\<rparr>"

definition two_consumers :: R1Messaging where
  "two_consumers = onMessage 20 (onMessage 10 new_R1Messaging)"

definition three_consumers :: R1Messaging where
  "three_consumers = onMessage 30 (onMessage 20 (onMessage 10 new_R1Messaging))"

definition no_options :: MessageOptions where
  "no_options = \<lparr>wantsR1Response = None, wantsJournalEntry = None, useLLM = None, useSerpAPI = None,
     pluginId = None, imageBase64 = None\<rparr>"

subsection \<open>What a dispatch adds to the observed calls\<close>

text \<open>
  The consumers a fan-out over \<open>hs\<close> calls: all of them up to and including the first one
  that throws. \<open>fan_calls\<close> and \<open>fan_errors\<close> are the calls one fan-out over a Set makes
  and the exception that leaves it; \<open>listener_fan\<close> is the fan-out a \<^verbatim>\<open>window\<close> listener
  makes for an event, \<open>event_calls\<close> and \<open>event_errors\<close> what all listeners of an event add.
  They are proved below to describe \<open>dispatchEvent\<close>.
\<close>

fun called :: "consumers \<Rightarrow> args \<Rightarrow> hid list \<Rightarrow> hid list" where
  "called beh a [] = []"
| "called beh a (h # hs) = (if beh h a = Throws then [h] else h # called beh a hs)"

definition fan_calls :: "consumers \<Rightarrow> args \<Rightarrow> hid setdata \<Rightarrow> (hid \<times> args) list" where
  "fan_calls beh a S = map (\<lambda>h. (h, a)) (called beh a (members S))"

definition fan_errors :: "consumers \<Rightarrow> args \<Rightarrow> hid setdata \<Rightarrow> error list" where
  "fan_errors beh a S =
     (case find (\<lambda>h. beh h a = Throws) (members S) of None \<Rightarrow> [] | Some k \<Rightarrow> [Thrown k])"

definition set_of :: "hid setdata option \<Rightarrow> hid setdata" where
  "set_of m = (case m of Some S \<Rightarrow> S | None \<Rightarrow> [])"

fun listener_fan :: "system \<Rightarrow> event \<Rightarrow> listener \<Rightarrow> (args \<times> hid setdata) option" where
  "listener_fan s e (HardwareEvents_emit tag) = Some (NoArgs, set_of (listeners s tag))"
| "listener_fan s e DeviceControls_sideClick =
     (if sideButtonEnabled s then Some (SideButtonArgs e, set_of (eventListeners s sideButton)) else None)"
| "listener_fan s e DeviceControls_scrollUp =
     (if scrollWheelEnabled s
      then Some (ScrollWheelArgs \<lparr>direction = up, event = Some e\<rparr>, set_of (eventListeners s scrollWheel))
      else None)"
| "listener_fan s e DeviceControls_scrollDown =
     (if scrollWheelEnabled s
      then Some (ScrollWheelArgs \<lparr>direction = down, event = Some e\<rparr>, set_of (eventListeners s scrollWheel))
      else None)"
| "listener_fan s e DeviceControls_keydown = None"

definition plain_calls :: "consumers \<Rightarrow> system \<Rightarrow> event \<Rightarrow> listener \<Rightarrow> (hid \<times> args) list" where
  "plain_calls beh s e l = (case listener_fan s e l of None \<Rightarrow> [] | Some (a, S) \<Rightarrow> fan_calls beh a S)"

definition plain_errors :: "consumers \<Rightarrow> system \<Rightarrow> event \<Rightarrow> listener \<Rightarrow> error list" where
  "plain_errors beh s e l = (case listener_fan s e l of None \<Rightarrow> [] | Some (a, S) \<Rightarrow> fan_errors beh a S)"

definition keyboard_event :: event where
  "keyboard_event = \<lparr>etype = Hardware sideClick, code = None, detail_source = Some ''keyboard''\<rparr>"

definition redispatches :: "event \<Rightarrow> listener \<Rightarrow> bool" where
  "redispatches e l = (l = DeviceControls_keydown \<and> code e = Some ''Space'')"

definition listener_calls :: "consumers \<Rightarrow> system \<Rightarrow> event \<Rightarrow> listener \<Rightarrow> (hid \<times> args) list" where
  "listener_calls beh s e l =
     (if redispatches e l
      then concat (map (plain_calls beh s keyboard_event) (listeners_for (Hardware sideClick) s))
      else plain_calls beh s e l)"

definition listener_errors :: "consumers \<Rightarrow> system \<Rightarrow> event \<Rightarrow> listener \<Rightarrow> error list" where
  "listener_errors beh s e l =
     (if redispatches e l
      then concat (map (plain_errors beh s keyboard_event) (listeners_for (Hardware sideClick) s))
      else plain_errors beh s e l)"

definition event_calls :: "consumers \<Rightarrow> system \<Rightarrow> event \<Rightarrow> (hid \<times> args) list" where
  "event_calls beh s e = concat (map (listener_calls beh s e) (listeners_for (etype e) s))"

definition event_errors :: "consumers \<Rightarrow> system \<Rightarrow> event \<Rightarrow> error list" where
  "event_errors beh s e = concat (map (listener_errors beh s e) (listeners_for (etype e) s))"

definition finish :: "((error \<times> system) + system) option \<Rightarrow> system option" where
  "finish r = (case r of None \<Rightarrow> None | Some (Inr t) \<Rightarrow> Some t
                | Some (Inl (err, t)) \<Rightarrow> Some (t\<lparr>uncaught := uncaught t @ [err]\<rparr>))"

text \<open>The call of one \<^verbatim>\<open>window\<close> listener, as in \<open>dispatchEvent\<close>.\<close>

definition invoke_listener ::
  "consumers \<Rightarrow> event \<Rightarrow> listener \<Rightarrow> system \<Rightarrow> ((error \<times> system) + system) option" where
  "invoke_listener beh e l t =
     (case l of
        HardwareEvents_emit tag \<Rightarrow> emit beh tag t
      | DeviceControls_sideClick \<Rightarrow>
          if \<not> sideButtonEnabled t then Some (Inr t) else handleSideButtonClick beh e t
      | DeviceControls_scrollUp \<Rightarrow>
          if \<not> scrollWheelEnabled t then Some (Inr t)
          else handleScrollWheel beh \<lparr>direction = up, event = Some e\<rparr> t
      | DeviceControls_scrollDown \<Rightarrow>
          if \<not> scrollWheelEnabled t then Some (Inr t)
          else handleScrollWheel beh \<lparr>direction = down, event = Some e\<rparr> t
      | DeviceControls_keydown \<Rightarrow>
          if code e = Some ''Space'' then
            map_option Inr
              (dispatchEvent beh
                 \<lparr>etype = Hardware sideClick, code = None, detail_source = Some ''keyboard''\<rparr> t)
          else Some (Inr t))"

text \<open>The calls made without arguments (to consumers of \<open>HardwareEvents\<close>) and those made
  with an event or scroll data (to consumers of \<open>DeviceControls\<close>).\<close>

definition hw_view :: "system \<Rightarrow> (hid \<times> args) list" where
  "hw_view s = filter (\<lambda>c. snd c = NoArgs) (calls s)"

definition gate_view :: "system \<Rightarrow> (hid \<times> args) list" where
  "gate_view s = filter (\<lambda>c. snd c \<noteq> NoArgs) (calls s)"

definition stops_at ::
  "((error \<times> system) + system) option \<Rightarrow> system \<Rightarrow> args \<Rightarrow> hid list \<Rightarrow> hid \<Rightarrow> bool" where
  "stops_at r s a before k =
     (r = Some (Inl (Thrown k, s\<lparr>calls := calls s @ map (\<lambda>h. (h, a)) (before @ [k])\<rparr>)))"

definition calls_all :: "((error \<times> system) + system) option \<Rightarrow> system \<Rightarrow> args \<Rightarrow> hid list \<Rightarrow> bool" where
  "calls_all r s a hs = (r = Some (Inr (s\<lparr>calls := calls s @ map (\<lambda>h. (h, a)) hs\<rparr>)))"

definition first_throws :: consumers where
  "first_throws h a = (if h = 10 then Throws else Returns)"

definition quiet :: consumers where
  "quiet h a = Returns"

definition native_sideClick :: event where
  "native_sideClick = \<lparr>etype = Hardware sideClick, code = None, detail_source = None\<rparr>"

definition space_key :: event where
  "space_key = \<lparr>etype = keydown, code = Some ''Space'', detail_source = None\<rparr>"

definition two_hw :: system where
  "two_hw = HardwareEvents_on sideClick 20 (HardwareEvents_on sideClick 10 boot)"

definition no_opts :: DeviceControlsOptions where
  "no_opts = \<lparr>DeviceControlsOptions.sideButtonEnabled = None,
     DeviceControlsOptions.scrollWheelEnabled = None, keyboardFallback = None\<rparr>"

definition two_gate :: system where
  "two_gate = DeviceControls_on sideButton 20 (DeviceControls_on sideButton 10 (init no_opts boot))"

subsection \<open>Histories of the device controls\<close>

text \<open>What an \<open>init\<close> call asks for: an option left out counts as enabled.\<close>

definition wants_side :: "DeviceControlsOptions \<Rightarrow> bool" where
  "wants_side options = (DeviceControlsOptions.sideButtonEnabled options \<noteq> Some False)"

definition wants_scroll :: "DeviceControlsOptions \<Rightarrow> bool" where
  "wants_scroll options = (DeviceControlsOptions.scrollWheelEnabled options \<noteq> Some False)"

definition wants_keyboard :: "DeviceControlsOptions \<Rightarrow> bool" where
  "wants_keyboard options = (keyboardFallback options \<noteq> Some False)"

definition sideClick_event :: "event \<Rightarrow> bool" where
  "sideClick_event e = (etype e = Hardware sideClick \<and> code e = None)"

definition gate_page :: system where
  "gate_page = HardwareEvents_on sideClick 10 (init no_opts boot)"

definition registered :: system where
  "registered = DeviceControls_on sideButton 10 boot"

definition scroll_registered :: system where
  "scroll_registered = DeviceControls_on scrollWheel 20 registered"

definition native_scrollUp :: event where
  "native_scrollUp = \<lparr>etype = Hardware scrollUp, code = None, detail_source = None\<rparr>"

definition side_off :: DeviceControlsOptions where
  "side_off = \<lparr>DeviceControlsOptions.sideButtonEnabled = Some False,
     DeviceControlsOptions.scrollWheelEnabled = None, keyboardFallback = None\<rparr>"

definition with_keyboard :: DeviceControlsOptions where
  "with_keyboard = \<lparr>DeviceControlsOptions.sideButtonEnabled = None,
     DeviceControlsOptions.scrollWheelEnabled = None, keyboardFallback = Some True\<rparr>"

section \<open>The Set model\<close>

lemma pending_ge: "length S \<le> i \<Longrightarrow> pending i S = []"
  by (simp add: pending_def map_filter_simps)

lemma pending_None: "i < length S \<Longrightarrow> S ! i = None \<Longrightarrow> pending i S = pending (Suc i) S"
  by (simp add: pending_def map_filter_simps flip: Cons_nth_drop_Suc)

lemma pending_Some: "i < length S \<Longrightarrow> S ! i = Some h \<Longrightarrow> pending i S = h # pending (Suc i) S"
  by (simp add: pending_def map_filter_simps flip: Cons_nth_drop_Suc)

lemma set_pending: "set (pending i S) = {x. Some x \<in> set (drop i S)}"
  by (force simp: pending_def map_filter_def)

lemma length_set_delete: "length (set_delete S x) = length S"
  by (simp add: set_delete_def)

lemma map_filter_delete: "Some x \<notin> set xs \<Longrightarrow> map (\<lambda>e. if e = Some x then None else e) xs = xs"
  by (induction xs) auto

lemma pending_set_delete: "x \<notin> set (pending i S) \<Longrightarrow> drop i (set_delete S x) = drop i S"
  by (simp add: set_pending set_delete_def drop_map map_filter_delete)

lemma pending_cong: "drop i S' = drop i S \<Longrightarrow> pending i S' = pending i S"
  by (simp add: pending_def)

lemma Set_forEach_run:
  assumes "distinct (pending i (sel s))"
      and "\<And>h t t'. h \<in> set (pending i (sel s)) \<Longrightarrow> cb h t = Inr t' \<Longrightarrow>
             sel t' = sel t \<or> sel t' = set_delete (sel t) h"
  shows "Set_forEach sel cb i s = Some (run cb (pending i (sel s)) s)"
  using assms
proof (induction "length (sel s) - i" arbitrary: i s)
  case 0
  then show ?case by (subst Set_forEach.simps) (simp add: pending_ge)
next
  case (Suc n)
  then have lt: "i < length (sel s)" by simp
  show ?case
  proof (cases "sel s ! i")
    case None
    have p: "pending i (sel s) = pending (Suc i) (sel s)" using lt None by (rule pending_None)
    have "Set_forEach sel cb (Suc i) s = Some (run cb (pending (Suc i) (sel s)) s)"
      using Suc.hyps(2) Suc.prems by (intro Suc.hyps(1)) (auto simp: p)
    then show ?thesis using lt None by (subst Set_forEach.simps) (simp add: p)
  next
    case (Some h)
    have p: "pending i (sel s) = h # pending (Suc i) (sel s)" using lt Some by (rule pending_Some)
    show ?thesis
    proof (cases "cb h s")
      case (Inl thrown)
      then show ?thesis using lt Some by (subst Set_forEach.simps) (simp add: p)
    next
      case (Inr s')
      have hn: "h \<notin> set (pending (Suc i) (sel s))" using Suc.prems(1) by (simp add: p)
      have "sel s' = sel s \<or> sel s' = set_delete (sel s) h"
        using Suc.prems(2)[OF _ Inr] by (simp add: p)
      then have d: "drop (Suc i) (sel s') = drop (Suc i) (sel s)" and l: "length (sel s') = length (sel s)"
        using hn by (auto simp: pending_set_delete length_set_delete)
      have pe: "pending (Suc i) (sel s') = pending (Suc i) (sel s)" using d by (rule pending_cong)
      have "Set_forEach sel cb (Suc i) s' = Some (run cb (pending (Suc i) (sel s')) s')"
        using Suc.hyps(2) Suc.prems l by (intro Suc.hyps(1)) (auto simp: p pe)
      then show ?thesis using lt Some Inr by (subst Set_forEach.simps) (simp add: p pe)
    qed
  qed
qed



lemma set_delete_idem: "set_delete (set_delete S x) x = set_delete S x"
  by (simp add: set_delete_def)

lemma invoked_fold_perform: "invoked (fold perform acts s) = invoked s"
proof (induction acts arbitrary: s)
  case Nil
  show ?case by simp
next
  case (Cons a acts)
  show ?case by (cases a) (simp_all add: Cons.IH onMessage_def offMessage_def removeAllHandlers_def)
qed

lemma console_fold_perform: "console (fold perform acts s) = console s"
proof (induction acts arbitrary: s)
  case Nil
  show ?case by simp
next
  case (Cons a acts)
  show ?case by (cases a) (simp_all add: Cons.IH onMessage_def offMessage_def removeAllHandlers_def)
qed

lemma handlers_fold_self:
  "set acts \<subseteq> {OffMessage h} \<Longrightarrow>
     messageHandlers (fold perform acts s) = messageHandlers s \<or>
     messageHandlers (fold perform acts s) = set_delete (messageHandlers s) h"
proof (induction acts arbitrary: s)
  case Nil
  show ?case by simp
next
  case (Cons a acts)
  then have a: "a = OffMessage h" and r: "set acts \<subseteq> {OffMessage h}" by auto
  from Cons.IH[OF r, of "offMessage h s"] show ?case
    by (auto simp: a offMessage_def set_delete_idem)
qed

lemma try_handler_Inr: "\<exists>s'. try_handler beh e h s = Inr s'"
  by (simp add: try_handler_def call_handler_def Let_def split: completion.split)

lemma try_handler_invoked: "try_handler beh e h s = Inr s' \<Longrightarrow> invoked s' = invoked s @ [(h, e)]"
  by (auto simp: try_handler_def call_handler_def Let_def invoked_fold_perform split: completion.splits)

lemma try_handler_console:
  "try_handler beh e h s = Inr s' \<Longrightarrow>
     console s' = console s @ (if snd (beh h e) = Throws then [(''Error in message handler:'', Thrown h)] else [])"
  by (auto simp: try_handler_def call_handler_def Let_def console_fold_perform split: completion.splits)

lemma try_handler_handlers:
  "removes_only_itself beh e h \<Longrightarrow> try_handler beh e h s = Inr s' \<Longrightarrow>
     messageHandlers s' = messageHandlers s \<or> messageHandlers s' = set_delete (messageHandlers s) h"
  using handlers_fold_self[of "fst (beh h e)" h "s\<lparr>invoked := invoked s @ [(h, e)]\<rparr>"]
  by (auto simp: removes_only_itself_def try_handler_def call_handler_def Let_def split: completion.splits)


lemma run_try_handler:
  "\<exists>s'. run (try_handler beh e) hs s = Inr s' \<and> invoked s' = invoked s @ map (\<lambda>h. (h, e)) hs
        \<and> console s' = console s @ thrown_log beh e hs"
proof (induction hs arbitrary: s)
  case Nil
  show ?case by (simp add: thrown_log_def)
next
  case (Cons h hs)
  obtain s1 where s1: "try_handler beh e h s = Inr s1" using try_handler_Inr by blast
  from Cons.IH[of s1] obtain s' where
    "run (try_handler beh e) hs s1 = Inr s'" "invoked s' = invoked s1 @ map (\<lambda>h. (h, e)) hs"
    "console s' = console s1 @ thrown_log beh e hs" by blast
  then show ?case
    using s1 try_handler_invoked[OF s1] try_handler_console[OF s1] by (simp add: thrown_log_def)
qed

lemma dispatch_self_removal:
  assumes "wf_set (messageHandlers s)"
      and "\<forall>h \<in> set (members (messageHandlers s)). removes_only_itself beh (enhance parse d) h"
  shows "\<exists>s'. onPluginMessage parse beh d s = Some (Inr s')
            \<and> invoked s' = invoked s @ map (\<lambda>h. (h, enhance parse d)) (members (messageHandlers s))
            \<and> console s' = console s @ thrown_log beh (enhance parse d) (members (messageHandlers s))"
proof -
  let ?e = "enhance parse d"
  have "Set_forEach messageHandlers (try_handler beh ?e) 0 s
          = Some (run (try_handler beh ?e) (pending 0 (messageHandlers s)) s)"
  proof (rule Set_forEach_run)
    show "distinct (pending 0 (messageHandlers s))" using assms(1) by (simp add: wf_set_def members_def)
  next
    fix h t t'
    assume "h \<in> set (pending 0 (messageHandlers s))" "try_handler beh ?e h t = Inr t'"
    then show "messageHandlers t' = messageHandlers t \<or> messageHandlers t' = set_delete (messageHandlers t) h"
      using assms(2) by (intro try_handler_handlers) (auto simp: members_def)
  qed
  then show ?thesis
    using run_try_handler[of beh ?e "members (messageHandlers s)" s]
    by (auto simp: onPluginMessage_def Let_def members_def)
qed

lemma count_list_distinct: "distinct xs \<Longrightarrow> count_list xs x = (if x \<in> set xs then 1 else 0)"
  by (induction xs) auto

lemma set_members: "set (members S) = {x. set_has S x}"
  by (auto simp: members_def set_pending set_has_def)


lemma Set_forEach_invariant:
  assumes "Set_forEach sel cb i s = Some r"
      and "I s"
      and "\<And>h t r'. I t \<Longrightarrow> cb h t = r' \<Longrightarrow> I (state_of r')"
  shows "I (state_of r)"
proof -
  have "cb = cb \<longrightarrow> I s \<longrightarrow> I (state_of r)"
  proof (rule Set_forEach.raw_induct
      [where P = "\<lambda>sel' cb' i s r. cb' = cb \<longrightarrow> I s \<longrightarrow> I (state_of r)", OF _ assms(1)])
    fix F sel' cb' i s r
    assume IH: "\<And>sel cb' i s r. F sel cb' i s = Some r \<Longrightarrow> cb' = cb \<longrightarrow> I s \<longrightarrow> I (state_of r)"
      and eq: "(if i < length (sel' s)
                then case sel' s ! i of None \<Rightarrow> F sel' cb' (Suc i) s
                     | Some h \<Rightarrow> (case cb' h s of Inl thrown \<Rightarrow> Some (Inl thrown)
                                   | Inr s' \<Rightarrow> F sel' cb' (Suc i) s')
                else Some (Inr s)) = Some r"
    show "cb' = cb \<longrightarrow> I s \<longrightarrow> I (state_of r)"
    proof (intro impI)
      assume c: "cb' = cb" and i: "I s"
      show "I (state_of r)"
      proof (cases "i < length (sel' s)")
        case False
        with eq i show ?thesis by (auto simp: state_of_def)
      next
        case True
        show ?thesis
        proof (cases "sel' s ! i")
          case None
          with True eq have "F sel' cb' (Suc i) s = Some r" by simp
          from IH[OF this] c i show ?thesis by simp
        next
          case (Some h)
          show ?thesis
          proof (cases "cb h s")
            case (Inl x)
            with True Some eq c have "r = Inl x" by simp
            with assms(3)[OF i Inl] show ?thesis by simp
          next
            case (Inr s')
            with True Some eq c have "F sel' cb' (Suc i) s' = Some r" by simp
            moreover have "I s'" using assms(3)[OF i Inr] by (simp add: state_of_def)
            ultimately show ?thesis using IH c by blast
          qed
        qed
      qed
    qed
  qed
  with assms(2) show ?thesis by simp
qed

lemma try_handler_same_envelope:
  "\<forall>c \<in> set (drop n (invoked t)). snd c = e \<Longrightarrow>
     \<forall>c \<in> set (drop n (invoked (state_of (try_handler beh e h t)))). snd c = e"
  by (auto simp: try_handler_def call_handler_def Let_def state_of_def invoked_fold_perform
      split: completion.splits dest: in_set_dropD)

lemma dispatch_same_envelope:
  assumes "onPluginMessage parse beh d s = Some (Inr s')"
  shows "\<forall>c \<in> set (delivered s s'). snd c = enhance parse d"
proof -
  let ?e = "enhance parse d"
  let ?I = "\<lambda>t. \<forall>c \<in> set (drop (length (invoked s)) (invoked t)). snd c = ?e"
  obtain r where r: "Set_forEach messageHandlers (try_handler beh ?e) 0 s = Some r"
    using assms by (auto simp: onPluginMessage_def Let_def split: option.splits)
  have "?I (state_of r)"
    by (rule Set_forEach_invariant[OF r, where I = ?I]) (auto intro: try_handler_same_envelope[rule_format])
  moreover have "invoked s' = invoked (state_of r)"
    using assms r by (auto simp: onPluginMessage_def Let_def state_of_def split: sum.splits)
  ultimately show ?thesis by (simp add: delivered_def)
qed


lemma enhance_fields:
  "PluginMessageResponse.truncate (enhance parse d) = d \<and> parsedData (enhance parse d) = parsedData_of parse d"
  by (simp add: enhance_def PluginMessageResponse.defs enhancedData.defs)

lemma members_two: "members (messageHandlers two_consumers) = [10, 20]"
  by (simp add: two_consumers_def onMessage_def new_R1Messaging_def set_add_def set_has_def members_def
      pending_def map_filter_simps)

lemma members_three: "members (messageHandlers three_consumers) = [10, 20, 30]"
  by (simp add: three_consumers_def onMessage_def new_R1Messaging_def set_add_def set_has_def members_def
      pending_def map_filter_simps)

lemma JSON_parse_scenario_A: \<open>JSON_parse ''{"x":1}'' = Some (JObject [(''x'', JNumber ''1'')])\<close>
  by (simp add: JSON_parse_def skip_ws_def is_ws_def parse_number_def literal_def digits_def is_digit_def)

lemma JSON_parse_not_json: "JSON_parse ''not json'' = None"
  by (simp add: JSON_parse_def skip_ws_def is_ws_def literal_def)

lemma JSON_parse_empty: "JSON_parse [] = None"
  by (simp add: JSON_parse_def skip_ws_def)

text \<open>
  C1 as stated (one call of the slot calls each registered consumer exactly once,
  whatever the consumers are) fails when a consumer calls the registry during the
  dispatch: with 10, 20 and 30 registered, consumer 20 unregistering and registering 10
  again puts 10 behind 30 in the live Set, and 10 is called a second time.
\<close>

theorem fanout_counterexample:
  "members (messageHandlers three_consumers) = [10, 20, 30]
   \<and> onPluginMessage JSON_parse readds_first scenario_A three_consumers
       = Some (Inr \<lparr>messageHandlers = [None, Some 20, Some 30, Some 10],
                     invoked = [(10, enhance JSON_parse scenario_A), (20, enhance JSON_parse scenario_A),
                                (30, enhance JSON_parse scenario_A), (10, enhance JSON_parse scenario_A)],
                     console = []\<rparr>)"
  by (simp add: members_three)
     (simp add: onPluginMessage_def Let_def Set_forEach.simps try_handler_def call_handler_def
       readds_first_def three_consumers_def onMessage_def offMessage_def new_R1Messaging_def
       set_add_def set_has_def set_delete_def)

text \<open>
  C1 amended (fan-out completeness). Whatever the number of consumers registered with
  \<open>onMessage\<close>, when the only registry calls they make during the dispatch are to
  unregister themselves (in particular when they make none), one call of the inbound
  slot with a payload returns to the host, having called each registered consumer
  exactly once, in registration order, each with the same envelope: the payload's
  fields and \<open>parsedData\<close>. The consumers may throw.
\<close>

theorem fanout_complete:
  assumes "wf_set (messageHandlers s)"
      and "\<forall>h \<in> set (members (messageHandlers s)). removes_only_itself beh (enhance parse d) h"
  shows "\<exists>s'. onPluginMessage parse beh d s = Some (Inr s')
            \<and> delivered s s' = map (\<lambda>h. (h, enhance parse d)) (members (messageHandlers s))
            \<and> length (delivered s s') = set_size (messageHandlers s)
            \<and> (\<forall>h. count_list (map fst (delivered s s')) h = (if set_has (messageHandlers s) h then 1 else 0))
            \<and> PluginMessageResponse.truncate (enhance parse d) = d
            \<and> parsedData (enhance parse d) = parsedData_of parse d"
proof -
  from dispatch_self_removal[OF assms] obtain s' where
    r: "onPluginMessage parse beh d s = Some (Inr s')"
    and i: "invoked s' = invoked s @ map (\<lambda>h. (h, enhance parse d)) (members (messageHandlers s))"
    by blast
  have dl: "delivered s s' = map (\<lambda>h. (h, enhance parse d)) (members (messageHandlers s))"
    by (simp add: delivered_def i)
  have fs: "map fst (delivered s s') = members (messageHandlers s)"
    by (simp add: dl comp_def)
  have cnt: "\<forall>h. count_list (map fst (delivered s s')) h = (if set_has (messageHandlers s) h then 1 else 0)"
    using assms(1) by (simp add: fs wf_set_def count_list_distinct set_members)
  show ?thesis using r dl cnt enhance_fields[of parse d] by (simp add: set_size_def)
qed

theorem fanout_complete_witness:
  "wf_set (messageHandlers three_consumers)
   \<and> removes_only_itself removes_itself (enhance JSON_parse scenario_A) 10
   \<and> removes_only_itself removes_itself (enhance JSON_parse scenario_A) 20
   \<and> removes_only_itself removes_itself (enhance JSON_parse scenario_A) 30
   \<and> (\<exists>s'. onPluginMessage JSON_parse removes_itself scenario_A three_consumers = Some (Inr s')
        \<and> delivered three_consumers s'
            = [(10, enhance JSON_parse scenario_A), (20, enhance JSON_parse scenario_A),
               (30, enhance JSON_parse scenario_A)])
   \<and> parsedData (enhance JSON_parse scenario_A) = Some (JObject [(''x'', JNumber ''1'')])"
proof -
  have w: "wf_set (messageHandlers three_consumers)"
    unfolding wf_set_def members_three by simp
  have q: "\<forall>h \<in> set (members (messageHandlers three_consumers)).
             removes_only_itself removes_itself (enhance JSON_parse scenario_A) h"
    by (simp add: removes_only_itself_def removes_itself_def)
  have p: "parsedData_of JSON_parse scenario_A = Some (JObject [(''x'', JNumber ''1'')])"
    by (simp add: parsedData_of_def scenario_A_def JSON_parse_scenario_A)
  show ?thesis using w q p fanout_complete[OF w q] unfolding members_three by auto
qed

text \<open>
  C2 as stated (the consumers called are exactly those registered when the dispatch
  began, whatever a callback registers or unregisters) fails: the slot iterates the
  live Set. With consumers 10 and 20 registered, consumer 10 unregistering 20 leaves 20
  uncalled; consumer 10 registering 30 gets 30 called in the same dispatch.
\<close>

theorem snapshot_counterexample:
  "members (messageHandlers two_consumers) = [10, 20]
   \<and> onPluginMessage JSON_parse removes_next scenario_A two_consumers
       = Some (Inr \<lparr>messageHandlers = [Some 10, None],
                     invoked = [(10, enhance JSON_parse scenario_A)], console = []\<rparr>)
   \<and> onPluginMessage JSON_parse adds_third scenario_A two_consumers
       = Some (Inr \<lparr>messageHandlers = [Some 10, Some 20, Some 30],
                     invoked = [(10, enhance JSON_parse scenario_A), (20, enhance JSON_parse scenario_A),
                                (30, enhance JSON_parse scenario_A)], console = []\<rparr>)"
  by (simp add: members_two)
     (simp add: onPluginMessage_def Let_def Set_forEach.simps try_handler_def call_handler_def
       removes_next_def adds_third_def two_consumers_def onMessage_def offMessage_def new_R1Messaging_def
       set_add_def set_has_def set_delete_def)

text \<open>
  C2 amended. The slot takes no snapshot. When the only registry calls the registered
  consumers make during the dispatch are to unregister themselves, the consumers called
  are exactly those registered when the dispatch began, each once.
\<close>

theorem self_removal_safe:
  assumes "wf_set (messageHandlers s)"
      and "\<forall>h \<in> set (members (messageHandlers s)). removes_only_itself beh (enhance parse d) h"
  shows "\<exists>s'. onPluginMessage parse beh d s = Some (Inr s')
            \<and> map fst (delivered s s') = members (messageHandlers s)
            \<and> set (map fst (delivered s s')) = {h. set_has (messageHandlers s) h}
            \<and> distinct (map fst (delivered s s'))"
proof -
  from dispatch_self_removal[OF assms] obtain s' where
    r: "onPluginMessage parse beh d s = Some (Inr s')"
    and i: "invoked s' = invoked s @ map (\<lambda>h. (h, enhance parse d)) (members (messageHandlers s))"
    by blast
  have fs: "map fst (delivered s s') = members (messageHandlers s)"
    by (simp add: delivered_def i comp_def)
  have st: "set (map fst (delivered s s')) = {h. set_has (messageHandlers s) h}"
    by (simp only: fs set_members)
  have di: "distinct (map fst (delivered s s'))"
    using assms(1) by (simp only: fs wf_set_def)
  show ?thesis using r fs st di by blast
qed

theorem self_removal_safe_witness:
  "wf_set (messageHandlers two_consumers)
   \<and> removes_only_itself removes_itself (enhance JSON_parse scenario_A) 10
   \<and> removes_only_itself removes_itself (enhance JSON_parse scenario_A) 20
   \<and> (\<exists>s'. onPluginMessage JSON_parse removes_itself scenario_A two_consumers = Some (Inr s')
        \<and> map fst (delivered two_consumers s') = [10, 20])"
proof -
  have w: "wf_set (messageHandlers two_consumers)"
    unfolding wf_set_def members_two by simp
  have q: "\<forall>h \<in> set (members (messageHandlers two_consumers)).
         removes_only_itself removes_itself (enhance JSON_parse scenario_A) h"
    by (simp add: removes_only_itself_def removes_itself_def)
  show ?thesis using w q self_removal_safe[OF w q] unfolding members_two by auto
qed



text \<open>
  C5 as stated fails for the empty string: it is a string, it is not JSON, and
  \<^verbatim>\<open>if (data.data)\<close> skips it, so \<open>parsedData\<close> stays \<^verbatim>\<open>undefined\<close>.
\<close>

theorem fallback_counterexample:
  "data empty_data = Some [] \<and> JSON_parse [] = None
   \<and> parsedData (enhance JSON_parse empty_data) = None
   \<and> parsedData (enhance JSON_parse empty_data) \<noteq> Some (JString [])"
  by (simp add: enhance_fields parsedData_of_def empty_data_def JSON_parse_empty)

text \<open>
  C5 amended. For a payload whose \<open>data\<close> is a string the parser rejects, \<open>parsedData\<close>
  is that string unchanged when the string is not empty, and \<^verbatim>\<open>undefined\<close> when it is
  empty; and every call a dispatch of that payload makes to a consumer carries that
  value.
\<close>

theorem classification_fallback:
  assumes "data d = Some raw" and "parse raw = None"
  shows "parsedData (enhance parse d) = (if raw = [] then None else Some (JString raw))
         \<and> (\<forall>beh s s'. onPluginMessage parse beh d s = Some (Inr s') \<longrightarrow>
              (\<forall>c \<in> set (delivered s s').
                 parsedData (snd c) = (if raw = [] then None else Some (JString raw))))"
proof -
  have p: "parsedData (enhance parse d) = (if raw = [] then None else Some (JString raw))"
    using assms by (simp add: enhance_fields parsedData_of_def)
  show ?thesis using p dispatch_same_envelope by metis
qed

theorem classification_fallback_witness:
  "data scenario_B = Some ''not json'' \<and> JSON_parse ''not json'' = None
   \<and> parsedData (enhance JSON_parse scenario_B) = Some (JString ''not json'')
   \<and> onPluginMessage JSON_parse plain scenario_B two_consumers
       = Some (Inr (two_consumers\<lparr>invoked := [(10, enhance JSON_parse scenario_B), (20, enhance JSON_parse scenario_B)]\<rparr>))
   \<and> map (\<lambda>c. parsedData (snd c))
         (delivered two_consumers
            (two_consumers\<lparr>invoked := [(10, enhance JSON_parse scenario_B), (20, enhance JSON_parse scenario_B)]\<rparr>))
       = [Some (JString ''not json''), Some (JString ''not json'')]"
proof -
  have d: "data scenario_B = Some ''not json''" by (simp add: scenario_B_def)
  have r: "onPluginMessage JSON_parse plain scenario_B two_consumers
       = Some (Inr (two_consumers\<lparr>invoked := [(10, enhance JSON_parse scenario_B), (20, enhance JSON_parse scenario_B)]\<rparr>))"
    by (simp add: onPluginMessage_def Let_def Set_forEach.simps try_handler_def call_handler_def
       plain_def two_consumers_def onMessage_def new_R1Messaging_def set_add_def set_has_def)
  have dl: "delivered two_consumers (two_consumers\<lparr>invoked := xs\<rparr>) = xs" for xs
    by (simp add: delivered_def two_consumers_def onMessage_def new_R1Messaging_def)
  show ?thesis
    using d JSON_parse_not_json r classification_fallback[of scenario_B "''not json''" JSON_parse, OF d JSON_parse_not_json]
    by (simp add: dl)
qed

text \<open>
  C8 as stated (with the handle absent \<open>sendMessage\<close> raises the error synchronously to
  its caller) fails: the call returns, and what it returns is a promise rejected with the
  error. A caller that does not await or catch the promise sees no exception.
\<close>

theorem sendMessage_synchronous_counterexample:
  "PluginMessageHandler \<lparr>PluginMessageHandler = None\<rparr> = None
   \<and> \<not> isl (sendMessage JSON_stringify ''hello'' no_options \<lparr>PluginMessageHandler = None\<rparr>)
   \<and> sendMessage JSON_stringify ''hello'' no_options \<lparr>PluginMessageHandler = None\<rparr>
       = Inr (Rejected (Error ''PluginMessageHandler not available. Make sure you are running in R1 environment.''),
              \<lparr>PluginMessageHandler = None\<rparr>)"
  by (simp add: sendMessage_def sendMessage_body_def Let_def)

text \<open>
  C8 amended. A call of \<open>sendMessage\<close> never throws to its caller; it returns a promise
  that is already settled. The promise is rejected exactly when the host's
  \<open>PluginMessageHandler\<close> is absent, with the error that says so, and nothing is posted;
  when the handle is present the serialized payload (the message and the caller's
  options) is posted and the promise is fulfilled.
\<close>

theorem sendMessage_environment:
  "\<not> isl (sendMessage stringify msg options env)
   \<and> ((\<exists>e env'. sendMessage stringify msg options env = Inr (Rejected e, env'))
        \<longleftrightarrow> PluginMessageHandler env = None)
   \<and> (PluginMessageHandler env = None \<longrightarrow>
        sendMessage stringify msg options env
          = Inr (Rejected (Error ''PluginMessageHandler not available. Make sure you are running in R1 environment.''),
                 env))
   \<and> (\<forall>posted. PluginMessageHandler env = Some posted \<longrightarrow>
        sendMessage stringify msg options env
          = Inr (Fulfilled (),
                 env\<lparr>PluginMessageHandler :=
                       Some (posted @ [stringify (MessageOptions.extend options (PluginMessage.fields msg))])\<rparr>))
   \<and> PluginMessage.message (MessageOptions.extend options (PluginMessage.fields msg)) = msg
   \<and> MessageOptions.truncate (MessageOptions.extend options (PluginMessage.fields msg)) = options"
  by (cases "PluginMessageHandler env")
     (simp_all add: sendMessage_def sendMessage_body_def Let_def MessageOptions.defs PluginMessage.defs)

theorem sendMessage_environment_witness:
  \<open>PluginMessageHandler \<lparr>PluginMessageHandler = None\<rparr> = None
   \<and> sendMessage JSON_stringify ''hello'' no_options \<lparr>PluginMessageHandler = None\<rparr>
       = Inr (Rejected (Error ''PluginMessageHandler not available. Make sure you are running in R1 environment.''),
              \<lparr>PluginMessageHandler = None\<rparr>)
   \<and> PluginMessageHandler \<lparr>PluginMessageHandler = Some []\<rparr> = Some []
   \<and> sendMessage JSON_stringify ''hello'' no_options \<lparr>PluginMessageHandler = Some []\<rparr>
       = Inr (Fulfilled (), \<lparr>PluginMessageHandler = Some [''{"message":"hello"}'']\<rparr>)\<close>
proof -
  have j: \<open>JSON_stringify (MessageOptions.extend no_options (PluginMessage.fields ''hello''))
             = ''{"message":"hello"}''\<close>
    by (simp add: JSON_stringify_def no_options_def MessageOptions.defs PluginMessage.defs quote_def
        escape_char_def bool_property_def string_property_def)
  show ?thesis
    using sendMessage_environment[of JSON_stringify "''hello''" no_options "\<lparr>PluginMessageHandler = None\<rparr>"]
          sendMessage_environment[of JSON_stringify "''hello''" no_options "\<lparr>PluginMessageHandler = Some []\<rparr>"]
    by (simp add: j)
qed

section \<open>Hardware events and device controls\<close>

lemma Set_forEach_const: "Set_forEach (\<lambda>t. S) cb i s = Some (run cb (pending i S) s)"
proof (induction "length S - i" arbitrary: i s)
  case 0
  then show ?case by (subst Set_forEach.simps) (simp add: pending_ge)
next
  case (Suc n)
  then have lt: "i < length S" by simp
  have IH: "Set_forEach (\<lambda>t. S) cb (Suc i) t = Some (run cb (pending (Suc i) S) t)" for t
    using Suc.hyps(2) by (intro Suc.hyps(1)) simp
  show ?case
  proof (cases "S ! i")
    case None
    then show ?thesis using lt IH by (subst Set_forEach.simps) (simp add: pending_None)
  next
    case (Some h)
    then show ?thesis using lt IH
      by (subst Set_forEach.simps) (simp add: pending_Some split: sum.splits)
  qed
qed

lemma call_consumer_Returns:
  "beh h a = Returns \<Longrightarrow> call_consumer beh a h t = Inr (t\<lparr>calls := calls t @ [(h, a)]\<rparr>)"
  by (simp add: call_consumer_def)

lemma call_consumer_Throws:
  "beh h a = Throws \<Longrightarrow> call_consumer beh a h t = Inl (Thrown h, t\<lparr>calls := calls t @ [(h, a)]\<rparr>)"
  by (simp add: call_consumer_def)

lemma run_call_consumer:
  "run (call_consumer beh a) hs t =
     (case find (\<lambda>h. beh h a = Throws) hs of
        None \<Rightarrow> Inr (t\<lparr>calls := calls t @ map (\<lambda>h. (h, a)) (called beh a hs)\<rparr>)
      | Some k \<Rightarrow> Inl (Thrown k, t\<lparr>calls := calls t @ map (\<lambda>h. (h, a)) (called beh a hs)\<rparr>))"
proof (induction hs arbitrary: t)
  case Nil
  show ?case by simp
next
  case (Cons h hs)
  show ?case
  proof (cases "beh h a")
    case Returns
    then show ?thesis by (simp add: call_consumer_Returns Cons.IH split: option.splits)
  next
    case Throws
    then show ?thesis by (simp add: call_consumer_Throws)
  qed
qed

lemma finish_fan:
  "finish (Set_forEach (\<lambda>t. S) (call_consumer beh a) 0 t)
     = Some (t\<lparr>calls := calls t @ fan_calls beh a S, uncaught := uncaught t @ fan_errors beh a S\<rparr>)"
  by (simp add: Set_forEach_const run_call_consumer finish_def fan_calls_def fan_errors_def members_def
      split: option.splits)

lemma deliver_finish:
  "deliver invoke (l # ls) s = (case finish (invoke l s) of None \<Rightarrow> None | Some t \<Rightarrow> deliver invoke ls t)"
  by (simp add: finish_def split: option.splits sum.splits)

lemma deliver_effects:
  assumes "\<And>l c u. l \<in> set ls \<Longrightarrow>
     finish (invoke l (s\<lparr>calls := c, uncaught := u\<rparr>)) = Some (s\<lparr>calls := c @ C l, uncaught := u @ U l\<rparr>)"
  shows "deliver invoke ls (s\<lparr>calls := c, uncaught := u\<rparr>)
           = Some (s\<lparr>calls := c @ concat (map C ls), uncaught := u @ concat (map U ls)\<rparr>)"
  using assms
proof (induction ls arbitrary: c u)
  case Nil
  show ?case by simp
next
  case (Cons l ls)
  have "deliver invoke ls (s\<lparr>calls := c @ C l, uncaught := u @ U l\<rparr>)
          = Some (s\<lparr>calls := (c @ C l) @ concat (map C ls), uncaught := (u @ U l) @ concat (map U ls)\<rparr>)"
    by (rule Cons.IH) (simp add: Cons.prems)
  moreover have "finish (invoke l (s\<lparr>calls := c, uncaught := u\<rparr>))
          = Some (s\<lparr>calls := c @ C l, uncaught := u @ U l\<rparr>)"
    by (rule Cons.prems) simp
  ultimately show ?case by (simp add: deliver_finish del: deliver.simps)
qed

lemma listeners_for_frame: "listeners_for ty (s\<lparr>calls := c, uncaught := u\<rparr>) = listeners_for ty s"
  by (simp add: listeners_for_def)

lemma dispatchEvent_deliver:
  "dispatchEvent beh e s = deliver (invoke_listener beh e) (listeners_for (etype e) s) s"
proof -
  have "invoke_listener beh e = (\<lambda>l t. case l of
            HardwareEvents_emit tag \<Rightarrow> emit beh tag t
          | DeviceControls_sideClick \<Rightarrow>
              if \<not> sideButtonEnabled t then Some (Inr t) else handleSideButtonClick beh e t
          | DeviceControls_scrollUp \<Rightarrow>
              if \<not> scrollWheelEnabled t then Some (Inr t)
              else handleScrollWheel beh \<lparr>direction = up, event = Some e\<rparr> t
          | DeviceControls_scrollDown \<Rightarrow>
              if \<not> scrollWheelEnabled t then Some (Inr t)
              else handleScrollWheel beh \<lparr>direction = down, event = Some e\<rparr> t
          | DeviceControls_keydown \<Rightarrow>
              if code e = Some ''Space'' then
                map_option Inr
                  (dispatchEvent beh
                     \<lparr>etype = Hardware sideClick, code = None, detail_source = Some ''keyboard''\<rparr> t)
              else Some (Inr t))"
    by (intro ext) (simp add: invoke_listener_def)
  then show ?thesis by (subst dispatchEvent.simps) simp
qed

lemma finish_Inr: "finish (Some (Inr t)) = Some t"
  by (simp add: finish_def)

lemma fan_empty: "fan_calls beh a [] = [] \<and> fan_errors beh a [] = []"
  by (simp add: fan_calls_def fan_errors_def members_def pending_def map_filter_simps)

lemma invoke_plain:
  assumes "\<not> redispatches e l"
  shows "finish (invoke_listener beh e l (s\<lparr>calls := c, uncaught := u\<rparr>))
           = Some (s\<lparr>calls := c @ plain_calls beh s e l, uncaught := u @ plain_errors beh s e l\<rparr>)"
proof (cases l)
  case (HardwareEvents_emit tag)
  show ?thesis
  proof (cases "listeners s tag")
    case None
    then show ?thesis
      by (simp add: HardwareEvents_emit invoke_listener_def emit_def finish_Inr plain_calls_def
          plain_errors_def set_of_def fan_empty)
  next
    case (Some S)
    then show ?thesis
      using finish_fan[of S beh NoArgs "s\<lparr>calls := c, uncaught := u\<rparr>"]
      by (simp add: HardwareEvents_emit invoke_listener_def emit_def plain_calls_def
          plain_errors_def set_of_def)
  qed
next
  case DeviceControls_sideClick
  show ?thesis
    using finish_fan[of "set_of (eventListeners s sideButton)" beh "SideButtonArgs e" "s\<lparr>calls := c, uncaught := u\<rparr>"]
    by (simp add: DeviceControls_sideClick invoke_listener_def handleSideButtonClick_def finish_Inr
        plain_calls_def plain_errors_def set_of_def)
next
  case DeviceControls_scrollUp
  show ?thesis
    using finish_fan[of "set_of (eventListeners s scrollWheel)" beh
        "ScrollWheelArgs \<lparr>direction = up, event = Some e\<rparr>" "s\<lparr>calls := c, uncaught := u\<rparr>"]
    by (simp add: DeviceControls_scrollUp invoke_listener_def handleScrollWheel_def finish_Inr
        plain_calls_def plain_errors_def set_of_def)
next
  case DeviceControls_scrollDown
  show ?thesis
    using finish_fan[of "set_of (eventListeners s scrollWheel)" beh
        "ScrollWheelArgs \<lparr>direction = down, event = Some e\<rparr>" "s\<lparr>calls := c, uncaught := u\<rparr>"]
    by (simp add: DeviceControls_scrollDown invoke_listener_def handleScrollWheel_def finish_Inr
        plain_calls_def plain_errors_def set_of_def)
next
  case DeviceControls_keydown
  then show ?thesis using assms
    by (simp add: invoke_listener_def finish_Inr plain_calls_def plain_errors_def redispatches_def)
qed

lemma dispatch_plain:
  assumes "code e \<noteq> Some ''Space''"
  shows "dispatchEvent beh e (s\<lparr>calls := c, uncaught := u\<rparr>)
           = Some (s\<lparr>calls := c @ concat (map (plain_calls beh s e) (listeners_for (etype e) s)),
                     uncaught := u @ concat (map (plain_errors beh s e) (listeners_for (etype e) s))\<rparr>)"
proof -
  have "deliver (invoke_listener beh e) (listeners_for (etype e) s) (s\<lparr>calls := c, uncaught := u\<rparr>)
          = Some (s\<lparr>calls := c @ concat (map (plain_calls beh s e) (listeners_for (etype e) s)),
                     uncaught := u @ concat (map (plain_errors beh s e) (listeners_for (etype e) s))\<rparr>)"
    by (rule deliver_effects, rule invoke_plain) (simp add: redispatches_def assms)
  then show ?thesis by (simp add: dispatchEvent_deliver listeners_for_frame)
qed

lemma invoke_any:
  "finish (invoke_listener beh e l (s\<lparr>calls := c, uncaught := u\<rparr>))
     = Some (s\<lparr>calls := c @ listener_calls beh s e l, uncaught := u @ listener_errors beh s e l\<rparr>)"
proof (cases "redispatches e l")
  case False
  then show ?thesis using invoke_plain[of e l] by (simp add: listener_calls_def listener_errors_def)
next
  case True
  have k: "code keyboard_event \<noteq> Some ''Space''" and t: "etype keyboard_event = Hardware sideClick"
    by (simp_all add: keyboard_event_def)
  show ?thesis
    using True dispatch_plain[OF k, where beh = beh and s = s and c = c and u = u]
    by (simp add: redispatches_def invoke_listener_def finish_Inr listener_calls_def listener_errors_def
        t flip: keyboard_event_def)
qed

lemma dispatchEvent_effects:
  "dispatchEvent beh e s
     = Some (s\<lparr>calls := calls s @ event_calls beh s e, uncaught := uncaught s @ event_errors beh s e\<rparr>)"
proof -
  have "deliver (invoke_listener beh e) (listeners_for (etype e) s) (s\<lparr>calls := calls s, uncaught := uncaught s\<rparr>)
          = Some (s\<lparr>calls := calls s @ concat (map (listener_calls beh s e) (listeners_for (etype e) s)),
                     uncaught := uncaught s @ concat (map (listener_errors beh s e) (listeners_for (etype e) s))\<rparr>)"
    by (rule deliver_effects, rule invoke_any)
  then show ?thesis by (simp add: dispatchEvent_deliver event_calls_def event_errors_def)
qed

lemma called_quiet: "\<forall>h \<in> set hs. beh h a = Returns \<Longrightarrow> called beh a hs = hs"
  by (induction hs) auto

lemma find_quiet: "\<forall>h \<in> set hs. beh h a = Returns \<Longrightarrow> find (\<lambda>h. beh h a = Throws) hs = None"
  by (induction hs) auto

lemma called_thrower:
  "\<forall>h \<in> set before. beh h a = Returns \<Longrightarrow> beh k a = Throws \<Longrightarrow>
     called beh a (before @ k # after) = before @ [k]"
  by (induction before) auto

lemma find_thrower:
  "\<forall>h \<in> set before. beh h a = Returns \<Longrightarrow> beh k a = Throws \<Longrightarrow>
     find (\<lambda>h. beh h a = Throws) (before @ k # after) = Some k"
  by (induction before) auto

lemma fan_out_closed:
  "Set_forEach (\<lambda>t. S) (call_consumer beh a) 0 s =
     Some (case find (\<lambda>h. beh h a = Throws) (members S) of
        None \<Rightarrow> Inr (s\<lparr>calls := calls s @ map (\<lambda>h. (h, a)) (called beh a (members S))\<rparr>)
      | Some k \<Rightarrow> Inl (Thrown k, s\<lparr>calls := calls s @ map (\<lambda>h. (h, a)) (called beh a (members S))\<rparr>))"
  unfolding members_def by (simp add: Set_forEach_const run_call_consumer)

lemma fan_out_stops:
  assumes "members S = before @ k # after" "\<forall>h \<in> set before. beh h a = Returns" "beh k a = Throws"
  shows "stops_at (Set_forEach (\<lambda>t. S) (call_consumer beh a) 0 s) s a before k"
proof -
  have "called beh a (before @ k # after) = before @ [k]"
    by (rule called_thrower) (use assms in auto)
  moreover have "find (\<lambda>h. beh h a = Throws) (before @ k # after) = Some k"
    by (rule find_thrower) (use assms in auto)
  ultimately show ?thesis by (simp add: stops_at_def fan_out_closed assms(1))
qed

lemma fan_out_all:
  assumes "\<forall>h \<in> set (members S). beh h a = Returns"
  shows "calls_all (Set_forEach (\<lambda>t. S) (call_consumer beh a) 0 s) s a (members S)"
proof -
  have "called beh a (members S) = members S"
    by (rule called_quiet) (use assms in auto)
  moreover have "find (\<lambda>h. beh h a = Throws) (members S) = None"
    by (rule find_quiet) (use assms in auto)
  ultimately show ?thesis by (simp add: calls_all_def fan_out_closed)
qed

text \<open>
  C4 amended. The hardware fan-outs do not isolate consumers. For consumers that make no
  call back into the registries during the fan-out: \<open>emit\<close> (for any of the five tags),
  \<open>handleSideButtonClick\<close> and \<open>handleScrollWheel\<close> call the consumers of the tag or
  channel in registration order; when one throws, the exception leaves the routine and
  the consumers registered after it are not called for that event; when none throws,
  every registered consumer is called once and the routine returns.
\<close>

theorem fanout_stops_at_throw:
  "(members S = before @ k # after \<and> (\<forall>h \<in> set before. beh h a = Returns) \<and> beh k a = Throws \<longrightarrow>
      (listeners s tag = Some S \<and> a = NoArgs \<longrightarrow> stops_at (emit beh tag s) s a before k)
    \<and> (eventListeners s sideButton = Some S \<and> a = SideButtonArgs ev \<longrightarrow>
          stops_at (handleSideButtonClick beh ev s) s a before k)
    \<and> (eventListeners s scrollWheel = Some S \<and> a = ScrollWheelArgs d \<longrightarrow>
          stops_at (handleScrollWheel beh d s) s a before k))
   \<and> ((\<forall>h \<in> set (members S). beh h a = Returns) \<longrightarrow>
      (listeners s tag = Some S \<and> a = NoArgs \<longrightarrow> calls_all (emit beh tag s) s a (members S))
    \<and> (eventListeners s sideButton = Some S \<and> a = SideButtonArgs ev \<longrightarrow>
          calls_all (handleSideButtonClick beh ev s) s a (members S))
    \<and> (eventListeners s scrollWheel = Some S \<and> a = ScrollWheelArgs d \<longrightarrow>
          calls_all (handleScrollWheel beh d s) s a (members S)))"
proof (intro conjI impI)
  assume "members S = before @ k # after \<and> (\<forall>h \<in> set before. beh h a = Returns) \<and> beh k a = Throws"
  then have st: "stops_at (Set_forEach (\<lambda>t. S) (call_consumer beh a) 0 s) s a before k"
    by (intro fan_out_stops[where after = after]) auto
  {
    assume "listeners s tag = Some S \<and> a = NoArgs"
    then show "stops_at (emit beh tag s) s a before k" using st by (simp add: emit_def)
  next
    assume "eventListeners s sideButton = Some S \<and> a = SideButtonArgs ev"
    then show "stops_at (handleSideButtonClick beh ev s) s a before k"
      using st by (simp add: handleSideButtonClick_def)
  next
    assume "eventListeners s scrollWheel = Some S \<and> a = ScrollWheelArgs d"
    then show "stops_at (handleScrollWheel beh d s) s a before k"
      using st by (simp add: handleScrollWheel_def)
  }
next
  assume "\<forall>h \<in> set (members S). beh h a = Returns"
  then have al: "calls_all (Set_forEach (\<lambda>t. S) (call_consumer beh a) 0 s) s a (members S)"
    by (rule fan_out_all)
  {
    assume "listeners s tag = Some S \<and> a = NoArgs"
    then show "calls_all (emit beh tag s) s a (members S)" using al by (simp add: emit_def)
  next
    assume "eventListeners s sideButton = Some S \<and> a = SideButtonArgs ev"
    then show "calls_all (handleSideButtonClick beh ev s) s a (members S)"
      using al by (simp add: handleSideButtonClick_def)
  next
    assume "eventListeners s scrollWheel = Some S \<and> a = ScrollWheelArgs d"
    then show "calls_all (handleScrollWheel beh d s) s a (members S)"
      using al by (simp add: handleScrollWheel_def)
  }
qed

lemma members_two_hw: "listeners two_hw sideClick = Some [Some 10, Some 20]"
  by (simp add: two_hw_def HardwareEvents_on_def boot_def initializeEventListeners_def addEventListener_def
      set_add_def set_has_def)

lemma members_two_gate: "eventListeners two_gate sideButton = Some [Some 10, Some 20]"
  by (simp add: two_gate_def DeviceControls_on_def init_def Let_def no_opts_def boot_def initializeEventListeners_def addEventListener_def
      setupSideButtonListener_def setupScrollWheelListener_def setupKeyboardFallback_def set_add_def set_has_def)

lemma members_10_20: "members [Some 10, Some 20] = [10, 20::nat]"
  by (simp add: members_def pending_def map_filter_simps)

theorem fanout_stops_at_throw_witness:
  "emit first_throws sideClick two_hw = Some (Inl (Thrown 10, two_hw\<lparr>calls := calls two_hw @ [(10, NoArgs)]\<rparr>))
   \<and> handleSideButtonClick first_throws native_sideClick two_gate
       = Some (Inl (Thrown 10, two_gate\<lparr>calls := calls two_gate @ [(10, SideButtonArgs native_sideClick)]\<rparr>))
   \<and> emit quiet sideClick two_hw = Some (Inr (two_hw\<lparr>calls := calls two_hw @ [(10, NoArgs), (20, NoArgs)]\<rparr>))"
proof -
  have m: "members [Some 10, Some 20] = [] @ 10 # [20::nat]" by (simp add: members_10_20)
  have a: "emit first_throws sideClick two_hw = Some (Inl (Thrown 10, two_hw\<lparr>calls := calls two_hw @ [(10, NoArgs)]\<rparr>))"
    using fanout_stops_at_throw[of "[Some 10, Some 20]" "[]" 10 "[20]" first_throws NoArgs two_hw sideClick]
    by (simp add: members_10_20 first_throws_def members_two_hw stops_at_def)
  have b: "handleSideButtonClick first_throws native_sideClick two_gate
       = Some (Inl (Thrown 10, two_gate\<lparr>calls := calls two_gate @ [(10, SideButtonArgs native_sideClick)]\<rparr>))"
    using fanout_stops_at_throw[of "[Some 10, Some 20]" "[]" 10 "[20]" first_throws "SideButtonArgs native_sideClick" two_gate _ native_sideClick]
    by (simp add: members_10_20 first_throws_def members_two_gate stops_at_def)
  have c: "emit quiet sideClick two_hw = Some (Inr (two_hw\<lparr>calls := calls two_hw @ [(10, NoArgs), (20, NoArgs)]\<rparr>))"
    using fanout_stops_at_throw[of "[Some 10, Some 20]" "[]" 10 "[20]" quiet NoArgs two_hw sideClick]
    by (simp add: members_10_20 quiet_def members_two_hw calls_all_def)
  show ?thesis using a b c by simp
qed

text \<open>
  C4 as stated (a throwing consumer does not stop the others, and the fan-out routine does
  not propagate the exception) fails: with consumers 10 and 20 registered, 10 throwing,
  \<open>emit\<close> and \<open>handleSideButtonClick\<close> end with the exception of 10 and have not called 20.
\<close>

theorem isolation_counterexample:
  "listeners two_hw sideClick = Some [Some 10, Some 20]
   \<and> emit first_throws sideClick two_hw = Some (Inl (Thrown 10, two_hw\<lparr>calls := [(10, NoArgs)]\<rparr>))
   \<and> eventListeners two_gate sideButton = Some [Some 10, Some 20]
   \<and> handleSideButtonClick first_throws native_sideClick two_gate
       = Some (Inl (Thrown 10, two_gate\<lparr>calls := [(10, SideButtonArgs native_sideClick)]\<rparr>))"
proof -
  have c: "calls two_hw = []" "calls two_gate = []"
    by (simp_all add: two_hw_def two_gate_def HardwareEvents_on_def DeviceControls_on_def init_def Let_def
        no_opts_def boot_def initializeEventListeners_def addEventListener_def setupSideButtonListener_def
        setupScrollWheelListener_def setupKeyboardFallback_def split: option.splits)
  show ?thesis
    by (simp add: members_two_hw members_two_gate emit_def handleSideButtonClick_def fan_out_closed
        members_10_20 first_throws_def c)
qed

lemma filter_fan_hw:
  "filter (\<lambda>c. snd c = NoArgs) (fan_calls beh a S) = (if a = NoArgs then fan_calls beh a S else [])"
  by (simp add: fan_calls_def filter_map comp_def)

lemma filter_fan_gate:
  "filter (\<lambda>c. snd c \<noteq> NoArgs) (fan_calls beh a S) = (if a = NoArgs then [] else fan_calls beh a S)"
  by (simp add: fan_calls_def filter_map comp_def)

lemma hw_plain_calls:
  "filter (\<lambda>c. snd c = NoArgs) (plain_calls beh s e l)
     = (case l of HardwareEvents_emit tag \<Rightarrow> fan_calls beh NoArgs (set_of (listeners s tag)) | _ \<Rightarrow> [])"
  by (cases l) (simp_all add: plain_calls_def filter_fan_hw)

lemma gate_plain_calls:
  "filter (\<lambda>c. snd c \<noteq> NoArgs) (plain_calls beh s e l)
     = (case l of HardwareEvents_emit tag \<Rightarrow> [] | _ \<Rightarrow> plain_calls beh s e l)"
  by (cases l) (simp_all add: plain_calls_def filter_fan_gate)

lemma event_calls_plain:
  "code e \<noteq> Some ''Space'' \<Longrightarrow>
     event_calls beh s e = concat (map (plain_calls beh s e) (listeners_for (etype e) s))"
proof -
  assume "code e \<noteq> Some ''Space''"
  then have "listener_calls beh s e = plain_calls beh s e"
    by (intro ext) (simp add: listener_calls_def redispatches_def)
  then show ?thesis by (simp add: event_calls_def)
qed

lemma hw_event_calls:
  assumes "code e = None"
  shows "filter (\<lambda>c. snd c = NoArgs) (event_calls beh s e)
     = concat (map (\<lambda>l. case l of HardwareEvents_emit tag \<Rightarrow> fan_calls beh NoArgs (set_of (listeners s tag))
                                | _ \<Rightarrow> [])
          (listeners_for (etype e) s))"
  using assms by (simp add: event_calls_plain filter_concat comp_def hw_plain_calls)

lemma hw_view_dispatch:
  "map_option hw_view (dispatchEvent beh e s)
     = Some (hw_view s @ filter (\<lambda>c. snd c = NoArgs) (event_calls beh s e))"
  by (simp add: dispatchEvent_effects hw_view_def)

lemma gate_view_dispatch:
  "map_option gate_view (dispatchEvent beh e s)
     = Some (gate_view s @ filter (\<lambda>c. snd c \<noteq> NoArgs) (event_calls beh s e))"
  by (simp add: dispatchEvent_effects gate_view_def)

lemma event_calls_space:
  assumes "etype key = keydown" "code key = Some ''Space''" "listeners_for keydown s = [DeviceControls_keydown]"
  shows "event_calls beh s key = event_calls beh s keyboard_event"
proof -
  have "event_calls beh s keyboard_event
          = concat (map (plain_calls beh s keyboard_event) (listeners_for (Hardware sideClick) s))"
    by (simp add: event_calls_plain keyboard_event_def)
  then show ?thesis using assms
    by (simp add: event_calls_def listener_calls_def redispatches_def)
qed

text \<open>
  C9 (origin indistinguishability). What the consumers registered with \<open>HardwareEvents\<close>
  observe of a \<^verbatim>\<open>sideClick\<close> signal (\<open>hw_view\<close>: their calls, each \<^verbatim>\<open>callback()\<close> without
  arguments) is the same for any two \<^verbatim>\<open>sideClick\<close> events, whatever their \<^verbatim>\<open>detail\<close>: the
  native event, the one \<open>triggerSideButton\<close> dispatches, and the one the keyboard fallback
  dispatches for a Space key press when one fallback listener is installed.
\<close>

theorem origin_indistinguishable:
  assumes "etype e1 = Hardware sideClick" and "code e1 = None"
      and "etype e2 = Hardware sideClick" and "code e2 = None"
  shows "dispatchEvent beh e1 s \<noteq> None
       \<and> map_option hw_view (dispatchEvent beh e1 s) = map_option hw_view (dispatchEvent beh e2 s)
       \<and> map_option hw_view (triggerSideButton beh s) = map_option hw_view (dispatchEvent beh e1 s)
       \<and> (etype key = keydown \<and> code key = Some ''Space'' \<and> listeners_for keydown s = [DeviceControls_keydown]
            \<longrightarrow> map_option hw_view (dispatchEvent beh key s) = map_option hw_view (dispatchEvent beh e1 s))"
proof -
  have same: "filter (\<lambda>c. snd c = NoArgs) (event_calls beh s e) = filter (\<lambda>c. snd c = NoArgs) (event_calls beh s e1)"
    if "etype e = Hardware sideClick" "code e = None" for e
    using that assms(1,2) by (simp add: hw_event_calls)
  have a: "dispatchEvent beh e1 s \<noteq> None" by (simp add: dispatchEvent_effects)
  have b: "map_option hw_view (dispatchEvent beh e1 s) = map_option hw_view (dispatchEvent beh e2 s)"
    using same[OF assms(3,4)] by (simp only: hw_view_dispatch)
  have c: "map_option hw_view (triggerSideButton beh s) = map_option hw_view (dispatchEvent beh e1 s)"
    unfolding triggerSideButton_def by (simp only: hw_view_dispatch) (simp add: same)
  have d: "map_option hw_view (dispatchEvent beh key s) = map_option hw_view (dispatchEvent beh e1 s)"
    if "etype key = keydown \<and> code key = Some ''Space'' \<and> listeners_for keydown s = [DeviceControls_keydown]"
  proof -
    have "event_calls beh s key = event_calls beh s keyboard_event"
      using that by (intro event_calls_space) auto
    moreover have "filter (\<lambda>c. snd c = NoArgs) (event_calls beh s keyboard_event)
                     = filter (\<lambda>c. snd c = NoArgs) (event_calls beh s e1)"
      by (rule same) (simp_all add: keyboard_event_def)
    ultimately show ?thesis by (simp only: hw_view_dispatch)
  qed
  show ?thesis using a b c d by blast
qed

lemma gate_event_calls:
  assumes "code e \<noteq> Some ''Space''"
  shows "filter (\<lambda>c. snd c \<noteq> NoArgs) (event_calls beh s e)
     = concat (map (\<lambda>l. case l of HardwareEvents_emit tag \<Rightarrow> [] | _ \<Rightarrow> plain_calls beh s e l)
          (listeners_for (etype e) s))"
  using assms by (simp add: event_calls_plain filter_concat comp_def gate_plain_calls)

lemma plain_sideClick_quiet:
  assumes "\<forall>h \<in> set (members (set_of (eventListeners s sideButton))). beh h (SideButtonArgs e) = Returns"
  shows "plain_calls beh s e DeviceControls_sideClick
     = (if sideButtonEnabled s
        then map (\<lambda>h. (h, SideButtonArgs e)) (members (set_of (eventListeners s sideButton))) else [])"
proof -
  have "called beh (SideButtonArgs e) (members (set_of (eventListeners s sideButton)))
          = members (set_of (eventListeners s sideButton))"
    by (rule called_quiet) (use assms in auto)
  then show ?thesis by (simp add: plain_calls_def fan_calls_def)
qed

lemma concat_replicate_nil: "concat (replicate n []) = []"
  by (induction n) auto

lemma gate_sideClick_listeners:
  assumes "code e \<noteq> Some ''Space''" "etype e = Hardware sideClick"
      and "listeners_for (Hardware sideClick) s = HardwareEvents_emit sideClick # replicate n DeviceControls_sideClick"
  shows "filter (\<lambda>c. snd c \<noteq> NoArgs) (event_calls beh s e)
           = concat (replicate n (plain_calls beh s e DeviceControls_sideClick))"
  using assms by (simp add: gate_event_calls map_replicate_const)

lemma gate_keydown_listeners:
  assumes "etype e = keydown"
      and "listeners_for keydown s = replicate m DeviceControls_keydown"
      and "listeners_for (Hardware sideClick) s = HardwareEvents_emit sideClick # replicate n DeviceControls_sideClick"
  shows "filter (\<lambda>c. snd c \<noteq> NoArgs) (event_calls beh s e)
           = (if code e = Some ''Space''
              then concat (replicate (m * n) (plain_calls beh s keyboard_event DeviceControls_sideClick))
              else [])"
proof (cases "code e = Some ''Space''")
  case False
  then show ?thesis using assms
    by (simp add: gate_event_calls map_replicate_const plain_calls_def concat_replicate_nil)
next
  case True
  have k: "code keyboard_event \<noteq> Some ''Space''" "etype keyboard_event = Hardware sideClick"
    by (simp_all add: keyboard_event_def)
  have one: "listener_calls beh s e DeviceControls_keydown = event_calls beh s keyboard_event"
    using True by (simp add: listener_calls_def redispatches_def event_calls_plain k)
  have "event_calls beh s e = concat (replicate m (event_calls beh s keyboard_event))"
    using assms(1,2) by (simp add: event_calls_def map_replicate_const one)
  then have "filter (\<lambda>c. snd c \<noteq> NoArgs) (event_calls beh s e)
      = concat (replicate m (filter (\<lambda>c. snd c \<noteq> NoArgs) (event_calls beh s keyboard_event)))"
    by (simp add: filter_concat map_replicate_const)
  also have "\<dots> = concat (replicate m (concat (replicate n (plain_calls beh s keyboard_event DeviceControls_sideClick))))"
    using gate_sideClick_listeners[OF k assms(3)] by simp
  also have "\<dots> = concat (replicate (m * n) (plain_calls beh s keyboard_event DeviceControls_sideClick))"
    by (induction m) (simp_all add: replicate_add)
  finally show ?thesis using True by simp
qed

lemma listeners_for_append:
  "window_listeners t = window_listeners s @ added \<Longrightarrow>
     listeners_for ty t = listeners_for ty s @ map snd (filter (\<lambda>p. fst p = ty) added)"
  by (simp add: listeners_for_def)

lemma window_listeners_init:
  "window_listeners (init options s) = window_listeners s
     @ (if wants_side options then [(Hardware sideClick, DeviceControls_sideClick)] else [])
     @ (if wants_scroll options
        then [(Hardware scrollUp, DeviceControls_scrollUp), (Hardware scrollDown, DeviceControls_scrollDown)]
        else [])
     @ (if wants_keyboard options then [(keydown, DeviceControls_keydown)] else [])"
  by (auto simp: init_def Let_def wants_side_def wants_scroll_def wants_keyboard_def
      setupSideButtonListener_def setupScrollWheelListener_def setupKeyboardFallback_def
      addEventListener_def split: option.splits)

lemma init_fields:
  "sideButtonEnabled (init options s) = wants_side options"
  "scrollWheelEnabled (init options s) = wants_scroll options"
  "eventListeners (init options s) = eventListeners s"
  "listeners (init options s) = listeners s"
  "calls (init options s) = calls s"
  by (auto simp: init_def Let_def wants_side_def wants_scroll_def wants_keyboard_def
      setupSideButtonListener_def setupScrollWheelListener_def setupKeyboardFallback_def
      addEventListener_def split: option.splits)

lemma listeners_for_init_side:
  "listeners_for (Hardware sideClick) (init options s)
     = listeners_for (Hardware sideClick) s @ (if wants_side options then [DeviceControls_sideClick] else [])"
  by (simp add: listeners_for_append[OF window_listeners_init])

lemma listeners_for_init_key:
  "listeners_for keydown (init options s)
     = listeners_for keydown s @ (if wants_keyboard options then [DeviceControls_keydown] else [])"
  by (simp add: listeners_for_append[OF window_listeners_init])

lemma listeners_for_boot:
  assumes "window_listeners s0 = window_listeners boot"
  shows "listeners_for (Hardware sideClick) s0 = [HardwareEvents_emit sideClick]"
    and "listeners_for keydown s0 = []"
  using assms
  by (simp_all add: listeners_for_def boot_def initializeEventListeners_def addEventListener_def)

lemma fold_init_side:
  "listeners_for (Hardware sideClick) (fold init optss s)
     = listeners_for (Hardware sideClick) s @ replicate (length (filter wants_side optss)) DeviceControls_sideClick"
  by (induction optss arbitrary: s) (simp_all add: listeners_for_init_side replicate_app_Cons_same)

lemma fold_init_key:
  "listeners_for keydown (fold init optss s)
     = listeners_for keydown s @ replicate (length (filter wants_keyboard optss)) DeviceControls_keydown"
  by (induction optss arbitrary: s) (simp_all add: listeners_for_init_key replicate_app_Cons_same)

lemma fold_init_flags:
  "optss \<noteq> [] \<Longrightarrow> sideButtonEnabled (fold init optss s) = wants_side (last optss)
      \<and> scrollWheelEnabled (fold init optss s) = wants_scroll (last optss)"
proof (induction optss arbitrary: s)
  case Nil
  then show ?case by simp
next
  case (Cons a optss)
  show ?case
  proof (cases "optss = []")
    case True
    then show ?thesis by (simp add: init_fields)
  next
    case False
    with Cons.IH[OF False, of "init a s"] show ?thesis by simp
  qed
qed

lemma plain_sideClick_disabled:
  "\<not> sideButtonEnabled s \<Longrightarrow> plain_calls beh s e DeviceControls_sideClick = []"
  by (simp add: plain_calls_def)

lemma listeners_for_init_scrollUp:
  "listeners_for (Hardware scrollUp) (init options s)
     = listeners_for (Hardware scrollUp) s @ (if wants_scroll options then [DeviceControls_scrollUp] else [])"
  by (simp add: listeners_for_append[OF window_listeners_init])

lemma listeners_for_init_scrollDown:
  "listeners_for (Hardware scrollDown) (init options s)
     = listeners_for (Hardware scrollDown) s @ (if wants_scroll options then [DeviceControls_scrollDown] else [])"
  by (simp add: listeners_for_append[OF window_listeners_init])

lemma listeners_for_boot_scroll:
  assumes "window_listeners s0 = window_listeners boot"
  shows "listeners_for (Hardware scrollUp) s0 = [HardwareEvents_emit scrollUp]"
    and "listeners_for (Hardware scrollDown) s0 = [HardwareEvents_emit scrollDown]"
  using assms
  by (simp_all add: listeners_for_def boot_def initializeEventListeners_def addEventListener_def)

lemma fold_init_scrollUp:
  "listeners_for (Hardware scrollUp) (fold init optss s)
     = listeners_for (Hardware scrollUp) s @ replicate (length (filter wants_scroll optss)) DeviceControls_scrollUp"
  by (induction optss arbitrary: s) (simp_all add: listeners_for_init_scrollUp replicate_app_Cons_same)

lemma fold_init_scrollDown:
  "listeners_for (Hardware scrollDown) (fold init optss s)
     = listeners_for (Hardware scrollDown) s @ replicate (length (filter wants_scroll optss)) DeviceControls_scrollDown"
  by (induction optss arbitrary: s) (simp_all add: listeners_for_init_scrollDown replicate_app_Cons_same)

lemma plain_scrollUp_quiet:
  assumes "\<forall>h \<in> set (members (set_of (eventListeners s scrollWheel))).
             beh h (ScrollWheelArgs \<lparr>direction = up, event = Some e\<rparr>) = Returns"
  shows "plain_calls beh s e DeviceControls_scrollUp
     = (if scrollWheelEnabled s
        then map (\<lambda>h. (h, ScrollWheelArgs \<lparr>direction = up, event = Some e\<rparr>))
               (members (set_of (eventListeners s scrollWheel))) else [])"
proof -
  have "called beh (ScrollWheelArgs \<lparr>direction = up, event = Some e\<rparr>) (members (set_of (eventListeners s scrollWheel)))
          = members (set_of (eventListeners s scrollWheel))"
    by (rule called_quiet) (use assms in auto)
  then show ?thesis by (simp add: plain_calls_def fan_calls_def)
qed

lemma plain_scrollDown_quiet:
  assumes "\<forall>h \<in> set (members (set_of (eventListeners s scrollWheel))).
             beh h (ScrollWheelArgs \<lparr>direction = down, event = Some e\<rparr>) = Returns"
  shows "plain_calls beh s e DeviceControls_scrollDown
     = (if scrollWheelEnabled s
        then map (\<lambda>h. (h, ScrollWheelArgs \<lparr>direction = down, event = Some e\<rparr>))
               (members (set_of (eventListeners s scrollWheel))) else [])"
proof -
  have "called beh (ScrollWheelArgs \<lparr>direction = down, event = Some e\<rparr>) (members (set_of (eventListeners s scrollWheel)))
          = members (set_of (eventListeners s scrollWheel))"
    by (rule called_quiet) (use assms in auto)
  then show ?thesis by (simp add: plain_calls_def fan_calls_def)
qed

lemma gate_scrollUp_listeners:
  assumes "code e \<noteq> Some ''Space''" "etype e = Hardware scrollUp"
      and "listeners_for (Hardware scrollUp) s = HardwareEvents_emit scrollUp # replicate n DeviceControls_scrollUp"
  shows "filter (\<lambda>c. snd c \<noteq> NoArgs) (event_calls beh s e)
           = concat (replicate n (plain_calls beh s e DeviceControls_scrollUp))"
  using assms by (simp add: gate_event_calls map_replicate_const)

lemma gate_scrollDown_listeners:
  assumes "code e \<noteq> Some ''Space''" "etype e = Hardware scrollDown"
      and "listeners_for (Hardware scrollDown) s = HardwareEvents_emit scrollDown # replicate n DeviceControls_scrollDown"
  shows "filter (\<lambda>c. snd c \<noteq> NoArgs) (event_calls beh s e)
           = concat (replicate n (plain_calls beh s e DeviceControls_scrollDown))"
  using assms by (simp add: gate_event_calls map_replicate_const)

text \<open>
  C6 amended. Every call of \<open>init\<close> re-applies the two flags and adds listeners again: a
  \<^verbatim>\<open>sideClick\<close> listener when it enables the side button, a \<^verbatim>\<open>scrollUp\<close> and a
  \<^verbatim>\<open>scrollDown\<close> listener when it enables the scroll wheel, a \<^verbatim>\<open>keydown\<close> listener unless
  \<open>keyboardFallback\<close> is false; nothing removes or merges them. Take a sequence of \<open>init\<close>
  calls on a freshly loaded page, \<open>n\<close> of them enabling the side button, \<open>k\<close> the scroll
  wheel and \<open>m\<close> the keyboard fallback, and consumers that neither throw nor call back
  into the device controls during a dispatch. While the side button is enabled, one
  \<^verbatim>\<open>sideClick\<close> event is delivered \<open>n\<close> times and one Space key press \<open>m * n\<close> times to
  every registered \<open>sideButton\<close> consumer; while the scroll wheel is enabled, one
  \<^verbatim>\<open>scrollUp\<close> or \<^verbatim>\<open>scrollDown\<close> event is delivered \<open>k\<close> times to every registered
  \<open>scrollWheel\<close> consumer. While a flag is disabled its events are delivered to no
  consumer of the device controls.
\<close>

theorem repeated_init:
  assumes "window_listeners s0 = window_listeners boot"
      and "s = fold init optss s0"
  shows "listeners_for (Hardware sideClick) s
           = HardwareEvents_emit sideClick # replicate (length (filter wants_side optss)) DeviceControls_sideClick
       \<and> listeners_for keydown s = replicate (length (filter wants_keyboard optss)) DeviceControls_keydown
       \<and> (optss \<noteq> [] \<longrightarrow> sideButtonEnabled s = wants_side (last optss)
                           \<and> scrollWheelEnabled s = wants_scroll (last optss))
       \<and> (\<forall>e. sideButtonEnabled s \<and> sideClick_event e
               \<and> (\<forall>h \<in> set (members (set_of (eventListeners s sideButton))). beh h (SideButtonArgs e) = Returns) \<longrightarrow>
             map_option gate_view (dispatchEvent beh e s)
               = Some (gate_view s @ concat (replicate (length (filter wants_side optss))
                    (map (\<lambda>h. (h, SideButtonArgs e)) (members (set_of (eventListeners s sideButton)))))))
       \<and> (\<forall>key. sideButtonEnabled s \<and> etype key = keydown \<and> code key = Some ''Space''
               \<and> (\<forall>h \<in> set (members (set_of (eventListeners s sideButton))).
                     beh h (SideButtonArgs keyboard_event) = Returns) \<longrightarrow>
             map_option gate_view (dispatchEvent beh key s)
               = Some (gate_view s @ concat (replicate
                    (length (filter wants_keyboard optss) * length (filter wants_side optss))
                    (map (\<lambda>h. (h, SideButtonArgs keyboard_event))
                       (members (set_of (eventListeners s sideButton)))))))
       \<and> listeners_for (Hardware scrollUp) s
           = HardwareEvents_emit scrollUp # replicate (length (filter wants_scroll optss)) DeviceControls_scrollUp
       \<and> listeners_for (Hardware scrollDown) s
           = HardwareEvents_emit scrollDown # replicate (length (filter wants_scroll optss)) DeviceControls_scrollDown
       \<and> (\<forall>e. scrollWheelEnabled s \<and> etype e = Hardware scrollUp \<and> code e = None
               \<and> (\<forall>h \<in> set (members (set_of (eventListeners s scrollWheel))).
                     beh h (ScrollWheelArgs \<lparr>direction = up, event = Some e\<rparr>) = Returns) \<longrightarrow>
             map_option gate_view (dispatchEvent beh e s)
               = Some (gate_view s @ concat (replicate (length (filter wants_scroll optss))
                    (map (\<lambda>h. (h, ScrollWheelArgs \<lparr>direction = up, event = Some e\<rparr>))
                       (members (set_of (eventListeners s scrollWheel)))))))
       \<and> (\<forall>e. scrollWheelEnabled s \<and> etype e = Hardware scrollDown \<and> code e = None
               \<and> (\<forall>h \<in> set (members (set_of (eventListeners s scrollWheel))).
                     beh h (ScrollWheelArgs \<lparr>direction = down, event = Some e\<rparr>) = Returns) \<longrightarrow>
             map_option gate_view (dispatchEvent beh e s)
               = Some (gate_view s @ concat (replicate (length (filter wants_scroll optss))
                    (map (\<lambda>h. (h, ScrollWheelArgs \<lparr>direction = down, event = Some e\<rparr>))
                       (members (set_of (eventListeners s scrollWheel)))))))
       \<and> (\<forall>e. \<not> sideButtonEnabled s \<and> (sideClick_event e \<or> etype e = keydown) \<longrightarrow>
             map_option gate_view (dispatchEvent beh e s) = Some (gate_view s))
       \<and> (\<forall>e. \<not> scrollWheelEnabled s \<and> code e = None
               \<and> (etype e = Hardware scrollUp \<or> etype e = Hardware scrollDown) \<longrightarrow>
             map_option gate_view (dispatchEvent beh e s) = Some (gate_view s))"
proof -
  let ?n = "length (filter wants_side optss)" and ?m = "length (filter wants_keyboard optss)"
  let ?k = "length (filter wants_scroll optss)"
  have side: "listeners_for (Hardware sideClick) s
                = HardwareEvents_emit sideClick # replicate ?n DeviceControls_sideClick"
    by (simp add: assms(2) fold_init_side listeners_for_boot[OF assms(1)])
  have key: "listeners_for keydown s = replicate ?m DeviceControls_keydown"
    by (simp add: assms(2) fold_init_key listeners_for_boot[OF assms(1)])
  have su: "listeners_for (Hardware scrollUp) s
                = HardwareEvents_emit scrollUp # replicate ?k DeviceControls_scrollUp"
    by (simp add: assms(2) fold_init_scrollUp listeners_for_boot_scroll[OF assms(1)])
  have sd: "listeners_for (Hardware scrollDown) s
                = HardwareEvents_emit scrollDown # replicate ?k DeviceControls_scrollDown"
    by (simp add: assms(2) fold_init_scrollDown listeners_for_boot_scroll[OF assms(1)])
  have flags: "optss \<noteq> [] \<longrightarrow> sideButtonEnabled s = wants_side (last optss)
                           \<and> scrollWheelEnabled s = wants_scroll (last optss)"
    using fold_init_flags[of optss s0] by (simp add: assms(2))
  have a: "map_option gate_view (dispatchEvent beh e s)
               = Some (gate_view s @ concat (replicate ?n
                    (map (\<lambda>h. (h, SideButtonArgs e)) (members (set_of (eventListeners s sideButton))))))"
    if "sideButtonEnabled s \<and> sideClick_event e
        \<and> (\<forall>h \<in> set (members (set_of (eventListeners s sideButton))). beh h (SideButtonArgs e) = Returns)" for e
    using that gate_sideClick_listeners[of e s ?n beh] side
    by (simp add: gate_view_dispatch sideClick_event_def plain_sideClick_quiet)
  have b: "map_option gate_view (dispatchEvent beh key s)
               = Some (gate_view s @ concat (replicate (?m * ?n)
                    (map (\<lambda>h. (h, SideButtonArgs keyboard_event))
                       (members (set_of (eventListeners s sideButton))))))"
    if "sideButtonEnabled s \<and> etype key = keydown \<and> code key = Some ''Space''
        \<and> (\<forall>h \<in> set (members (set_of (eventListeners s sideButton))).
              beh h (SideButtonArgs keyboard_event) = Returns)" for key
    using that gate_keydown_listeners[of key s ?m ?n beh] side key
    by (simp add: gate_view_dispatch plain_sideClick_quiet)
  have c: "map_option gate_view (dispatchEvent beh e s)
               = Some (gate_view s @ concat (replicate ?k
                    (map (\<lambda>h. (h, ScrollWheelArgs \<lparr>direction = up, event = Some e\<rparr>))
                       (members (set_of (eventListeners s scrollWheel))))))"
    if "scrollWheelEnabled s \<and> etype e = Hardware scrollUp \<and> code e = None
        \<and> (\<forall>h \<in> set (members (set_of (eventListeners s scrollWheel))).
              beh h (ScrollWheelArgs \<lparr>direction = up, event = Some e\<rparr>) = Returns)" for e
    using that gate_scrollUp_listeners[of e s ?k beh] su
    by (simp add: gate_view_dispatch plain_scrollUp_quiet)
  have d: "map_option gate_view (dispatchEvent beh e s)
               = Some (gate_view s @ concat (replicate ?k
                    (map (\<lambda>h. (h, ScrollWheelArgs \<lparr>direction = down, event = Some e\<rparr>))
                       (members (set_of (eventListeners s scrollWheel))))))"
    if "scrollWheelEnabled s \<and> etype e = Hardware scrollDown \<and> code e = None
        \<and> (\<forall>h \<in> set (members (set_of (eventListeners s scrollWheel))).
              beh h (ScrollWheelArgs \<lparr>direction = down, event = Some e\<rparr>) = Returns)" for e
    using that gate_scrollDown_listeners[of e s ?k beh] sd
    by (simp add: gate_view_dispatch plain_scrollDown_quiet)
  have off: "plain_calls beh s e' DeviceControls_sideClick = []" if "\<not> sideButtonEnabled s" for e'
    using that by (rule plain_sideClick_disabled)
  have f: "map_option gate_view (dispatchEvent beh e s) = Some (gate_view s)"
    if "\<not> sideButtonEnabled s \<and> (sideClick_event e \<or> etype e = keydown)" for e
  proof (cases "etype e = keydown")
    case True
    then show ?thesis using that gate_keydown_listeners[of e s ?m ?n beh] side key
      by (simp add: gate_view_dispatch off concat_replicate_nil)
  next
    case False
    with that have "sideClick_event e" by blast
    then show ?thesis using that gate_sideClick_listeners[of e s ?n beh] side
      by (simp add: gate_view_dispatch sideClick_event_def off concat_replicate_nil)
  qed
  have g: "map_option gate_view (dispatchEvent beh e s) = Some (gate_view s)"
    if "\<not> scrollWheelEnabled s \<and> code e = None
        \<and> (etype e = Hardware scrollUp \<or> etype e = Hardware scrollDown)" for e
  proof (cases "etype e = Hardware scrollUp")
    case True
    then show ?thesis using that gate_scrollUp_listeners[of e s ?k beh] su
      by (simp add: gate_view_dispatch plain_calls_def concat_replicate_nil)
  next
    case False
    with that have "etype e = Hardware scrollDown" by blast
    then show ?thesis using that gate_scrollDown_listeners[of e s ?k beh] sd
      by (simp add: gate_view_dispatch plain_calls_def concat_replicate_nil)
  qed
  show ?thesis using side key flags a b su sd c d f g by blast
qed

lemmas page_defs = boot_def initializeEventListeners_def addEventListener_def init_def Let_def
  setupSideButtonListener_def setupScrollWheelListener_def setupKeyboardFallback_def
  DeviceControls_on_def HardwareEvents_on_def setSideButtonEnabled_def setScrollWheelEnabled_def
  no_opts_def side_off_def with_keyboard_def registered_def gate_page_def
  set_add_def set_has_def

lemmas call_defs = event_calls_def listener_calls_def redispatches_def plain_calls_def fan_calls_def
  listeners_for_def set_of_def members_def pending_def map_filter_simps quiet_def
  native_sideClick_def space_key_def keyboard_event_def

lemma scroll_registered_fresh: "window_listeners scroll_registered = window_listeners boot"
  by (simp add: scroll_registered_def page_defs)

lemma scroll_registered_sets:
  "members (set_of (eventListeners scroll_registered sideButton)) = [10]"
  "members (set_of (eventListeners scroll_registered scrollWheel)) = [20]"
  by (simp_all add: scroll_registered_def page_defs call_defs)

text \<open>
  C7 (gating) at \<open>on('sideButton', h)\<close>, \<open>init({sideButtonEnabled: false})\<close>,
  \<open>setSideButtonEnabled(true)\<close> and one \<^verbatim>\<open>sideClick\<close> signal. \<open>init\<close> adds the gate's
  \<^verbatim>\<open>sideClick\<close> listener only when the flag it has just set is true, so here the only
  \<^verbatim>\<open>sideClick\<close> listener on \<^verbatim>\<open>window\<close> is the one of \<^verbatim>\<open>HardwareEvents\<close>.
  \<open>setSideButtonEnabled\<close>, documented as enabling the side button, writes the flag and
  nothing else: the flag reads true, the consumer is registered, and the signal calls
  no consumer.
\<close>

theorem gating_failing_input:
  "\<not> sideButtonEnabled (init side_off registered)
   \<and> listeners_for (Hardware sideClick) (init side_off registered) = [HardwareEvents_emit sideClick]
   \<and> sideButtonEnabled (setSideButtonEnabled True (init side_off registered))
   \<and> listeners_for (Hardware sideClick) (setSideButtonEnabled True (init side_off registered))
       = [HardwareEvents_emit sideClick]
   \<and> members (set_of (eventListeners (setSideButtonEnabled True (init side_off registered)) sideButton)) = [10]
   \<and> map_option calls (dispatchEvent quiet native_sideClick (setSideButtonEnabled True (init side_off registered)))
       = Some []"
  by (simp add: dispatchEvent_effects) (simp add: page_defs call_defs)

text \<open>
  C6 as stated (any number of \<open>init\<close> calls, still at most one delivery per signal) fails
  after two calls with the keyboard fallback enabled: one \<^verbatim>\<open>sideClick\<close> event reaches the
  registered consumer twice, one Space key press four times.
\<close>

theorem repeated_init_counterexample:
  "members (set_of (eventListeners (init with_keyboard (init with_keyboard registered)) sideButton)) = [10]
   \<and> map_option gate_view (dispatchEvent quiet native_sideClick (init with_keyboard (init with_keyboard registered)))
       = Some [(10, SideButtonArgs native_sideClick), (10, SideButtonArgs native_sideClick)]
   \<and> map_option gate_view (dispatchEvent quiet space_key (init with_keyboard (init with_keyboard registered)))
       = Some [(10, SideButtonArgs keyboard_event), (10, SideButtonArgs keyboard_event),
               (10, SideButtonArgs keyboard_event), (10, SideButtonArgs keyboard_event)]"
  by (simp add: dispatchEvent_effects gate_view_def) (simp add: page_defs call_defs)

theorem repeated_init_witness:
  "listeners_for (Hardware sideClick) (fold init [with_keyboard, with_keyboard] scroll_registered)
     = [HardwareEvents_emit sideClick, DeviceControls_sideClick, DeviceControls_sideClick]
   \<and> listeners_for keydown (fold init [with_keyboard, with_keyboard] scroll_registered)
     = [DeviceControls_keydown, DeviceControls_keydown]
   \<and> map_option gate_view (dispatchEvent quiet native_sideClick (fold init [with_keyboard, with_keyboard] scroll_registered))
       = Some [(10, SideButtonArgs native_sideClick), (10, SideButtonArgs native_sideClick)]
   \<and> map_option gate_view (dispatchEvent quiet space_key (fold init [with_keyboard, with_keyboard] scroll_registered))
       = Some [(10, SideButtonArgs keyboard_event), (10, SideButtonArgs keyboard_event),
               (10, SideButtonArgs keyboard_event), (10, SideButtonArgs keyboard_event)]
   \<and> listeners_for (Hardware scrollUp) (fold init [with_keyboard, with_keyboard] scroll_registered)
     = [HardwareEvents_emit scrollUp, DeviceControls_scrollUp, DeviceControls_scrollUp]
   \<and> listeners_for (Hardware scrollDown) (fold init [with_keyboard, with_keyboard] scroll_registered)
     = [HardwareEvents_emit scrollDown, DeviceControls_scrollDown, DeviceControls_scrollDown]
   \<and> map_option gate_view (dispatchEvent quiet native_scrollUp (fold init [with_keyboard, with_keyboard] scroll_registered))
       = Some [(20, ScrollWheelArgs \<lparr>direction = up, event = Some native_scrollUp\<rparr>),
               (20, ScrollWheelArgs \<lparr>direction = up, event = Some native_scrollUp\<rparr>)]"
proof -
  let ?s = "fold init [with_keyboard, with_keyboard] scroll_registered"
  have w: "wants_side with_keyboard" "wants_keyboard with_keyboard" "wants_scroll with_keyboard"
    by (simp_all add: wants_side_def wants_keyboard_def wants_scroll_def with_keyboard_def)
  have en: "sideButtonEnabled ?s" "scrollWheelEnabled ?s" by (simp_all add: init_fields w)
  have m: "members (set_of (eventListeners ?s sideButton)) = [10]"
          "members (set_of (eventListeners ?s scrollWheel)) = [20]"
    by (simp_all add: init_fields scroll_registered_sets)
  have g: "gate_view ?s = []"
    by (simp add: gate_view_def init_fields scroll_registered_def registered_def DeviceControls_on_def boot_def
        initializeEventListeners_def addEventListener_def split: option.splits)
  have ev: "sideClick_event native_sideClick" "etype space_key = keydown" "code space_key = Some ''Space''"
           "etype native_scrollUp = Hardware scrollUp" "code native_scrollUp = None"
    by (simp_all add: sideClick_event_def native_sideClick_def space_key_def native_scrollUp_def)
  have q: "quiet h a = Returns" for h a by (simp add: quiet_def)
  have n: "replicate 4 x = [x, x, x, x]" "replicate 2 x = [x, x]" for x :: "'a"
    by (simp_all add: numeral_eq_Suc)
  note r = repeated_init[OF scroll_registered_fresh refl, of "[with_keyboard, with_keyboard]" quiet]
  have c1: "listeners_for (Hardware sideClick) ?s
     = [HardwareEvents_emit sideClick, DeviceControls_sideClick, DeviceControls_sideClick]"
    using r[THEN conjunct1] by (simp add: w)
  have c2: "listeners_for keydown ?s = [DeviceControls_keydown, DeviceControls_keydown]"
    using r[THEN conjunct2, THEN conjunct1] by (simp add: w)
  have hq: "\<forall>h \<in> set (members (set_of (eventListeners ?s sideButton))). quiet h a = Returns" for a
    by (simp add: q)
  have hs: "\<forall>h \<in> set (members (set_of (eventListeners ?s scrollWheel))). quiet h a = Returns" for a
    by (simp add: q)
  have "map_option gate_view (dispatchEvent quiet native_sideClick ?s)
          = Some (gate_view ?s @ concat (replicate (length (filter wants_side [with_keyboard, with_keyboard]))
               (map (\<lambda>h. (h, SideButtonArgs native_sideClick)) (members (set_of (eventListeners ?s sideButton))))))"
    using r en(1) ev(1) hq[of "SideButtonArgs native_sideClick"] by blast
  then have c3: "map_option gate_view (dispatchEvent quiet native_sideClick ?s)
       = Some [(10, SideButtonArgs native_sideClick), (10, SideButtonArgs native_sideClick)]"
    unfolding m g by (simp add: w)
  have "map_option gate_view (dispatchEvent quiet space_key ?s)
          = Some (gate_view ?s @ concat (replicate
               (length (filter wants_keyboard [with_keyboard, with_keyboard])
                  * length (filter wants_side [with_keyboard, with_keyboard]))
               (map (\<lambda>h. (h, SideButtonArgs keyboard_event)) (members (set_of (eventListeners ?s sideButton))))))"
    using r en(1) ev(2,3) hq[of "SideButtonArgs keyboard_event"] by blast
  then have c4: "map_option gate_view (dispatchEvent quiet space_key ?s)
       = Some [(10, SideButtonArgs keyboard_event), (10, SideButtonArgs keyboard_event),
               (10, SideButtonArgs keyboard_event), (10, SideButtonArgs keyboard_event)]"
    unfolding m g by (simp add: w)
  have c5: "listeners_for (Hardware scrollUp) ?s
     = [HardwareEvents_emit scrollUp, DeviceControls_scrollUp, DeviceControls_scrollUp]"
    using r by (simp add: w)
  have c6: "listeners_for (Hardware scrollDown) ?s
     = [HardwareEvents_emit scrollDown, DeviceControls_scrollDown, DeviceControls_scrollDown]"
    using r by (simp add: w)
  have "map_option gate_view (dispatchEvent quiet native_scrollUp ?s)
          = Some (gate_view ?s @ concat (replicate (length (filter wants_scroll [with_keyboard, with_keyboard]))
               (map (\<lambda>h. (h, ScrollWheelArgs \<lparr>direction = up, event = Some native_scrollUp\<rparr>))
                  (members (set_of (eventListeners ?s scrollWheel))))))"
    using r en(2) ev(4,5) hs[of "ScrollWheelArgs \<lparr>direction = up, event = Some native_scrollUp\<rparr>"] by blast
  then have c7: "map_option gate_view (dispatchEvent quiet native_scrollUp ?s)
       = Some [(20, ScrollWheelArgs \<lparr>direction = up, event = Some native_scrollUp\<rparr>),
               (20, ScrollWheelArgs \<lparr>direction = up, event = Some native_scrollUp\<rparr>)]"
    unfolding m g by (simp add: w)
  show ?thesis using c1 c2 c3 c4 c5 c6 c7 by blast
qed

theorem origin_indistinguishable_witness:
  "map_option hw_view (dispatchEvent quiet native_sideClick gate_page) = Some [(10, NoArgs)]
   \<and> map_option hw_view (dispatchEvent quiet keyboard_event gate_page) = Some [(10, NoArgs)]
   \<and> map_option hw_view (triggerSideButton quiet gate_page) = Some [(10, NoArgs)]
   \<and> map_option hw_view (dispatchEvent quiet space_key gate_page) = Some [(10, NoArgs)]"
proof -
  have e: "etype native_sideClick = Hardware sideClick" "code native_sideClick = None"
          "etype keyboard_event = Hardware sideClick" "code keyboard_event = None"
          "etype space_key = keydown" "code space_key = Some ''Space''"
    by (simp_all add: native_sideClick_def keyboard_event_def space_key_def)
  have k: "listeners_for keydown gate_page = [DeviceControls_keydown]"
    by (simp add: page_defs listeners_for_def)
  have n: "map_option hw_view (dispatchEvent quiet native_sideClick gate_page) = Some [(10, NoArgs)]"
    by (simp add: dispatchEvent_effects hw_view_def) (simp add: page_defs call_defs)
  note r = origin_indistinguishable[OF e(1,2,3,4), of quiet gate_page space_key]
  have a: "map_option hw_view (dispatchEvent quiet keyboard_event gate_page)
             = map_option hw_view (dispatchEvent quiet native_sideClick gate_page)"
    using r by presburger
  have b: "map_option hw_view (triggerSideButton quiet gate_page)
             = map_option hw_view (dispatchEvent quiet native_sideClick gate_page)"
    using r by presburger
  have c: "map_option hw_view (dispatchEvent quiet space_key gate_page)
             = map_option hw_view (dispatchEvent quiet native_sideClick gate_page)"
    using r e(5,6) k by presburger
  show ?thesis unfolding a b c n by simp
qed

section \<open>Registration\<close>

lemma set_has_set_add: "set_has (set_add S h) h"
  by (simp add: set_add_def set_has_def)

lemma set_add_idem: "set_add (set_add S h) h = set_add S h"
  using set_has_set_add[of S h] by (simp add: set_add_def[of "set_add S h"])

lemma members_append: "members (S @ [Some h]) = members S @ [h]"
  by (simp add: members_def pending_def map_filter_def)

lemma wf_set_add: "wf_set S \<Longrightarrow> wf_set (set_add S h)"
  by (auto simp: wf_set_def set_add_def members_append set_members)

lemma not_has_set_delete: "\<not> set_has (set_delete S h) h"
  by (auto simp: set_has_def set_delete_def)

lemma count_registered: "wf_set S \<Longrightarrow> count_list (members (set_add S h)) h = 1"
  using wf_set_add[of S h] set_has_set_add[of S h]
  by (simp add: wf_set_def count_list_distinct set_members)

lemma onMessage_twice: "onMessage h (onMessage h s) = onMessage h s"
  by (simp add: onMessage_def set_add_idem)

lemma HardwareEvents_on_set:
  "listeners (HardwareEvents_on tag h p) tag = Some (set_add (set_of (listeners p tag)) h)"
  by (simp add: HardwareEvents_on_def set_of_def split: option.splits)

lemma HardwareEvents_on_twice:
  "HardwareEvents_on tag h (HardwareEvents_on tag h p) = HardwareEvents_on tag h p"
  by (simp add: HardwareEvents_on_def set_add_idem split: option.splits)

lemma DeviceControls_on_set:
  "eventListeners (DeviceControls_on ch h p) ch = Some (set_add (set_of (eventListeners p ch)) h)"
  by (simp add: DeviceControls_on_def set_of_def split: option.splits)

lemma DeviceControls_on_twice:
  "DeviceControls_on ch h (DeviceControls_on ch h p) = DeviceControls_on ch h p"
  by (simp add: DeviceControls_on_def set_add_idem split: option.splits)

lemma HardwareEvents_off_set:
  "set_of (listeners (HardwareEvents_off tag h p) tag) = set_delete (set_of (listeners p tag)) h"
  by (simp add: HardwareEvents_off_def set_of_def set_delete_def split: option.splits)

lemma DeviceControls_off_set:
  "set_of (eventListeners (DeviceControls_off ch h p) ch) = set_delete (set_of (eventListeners p ch)) h"
  by (simp add: DeviceControls_off_def set_of_def set_delete_def split: option.splits)

lemma calls_all_count:
  assumes "calls_all r p a hs" "distinct hs" "h \<in> set hs"
  shows "\<exists>t. r = Some (Inr t) \<and> count_list (drop (length (calls p)) (calls t)) (h, a) = 1"
proof -
  have "count_list (map (\<lambda>k. (k, a)) hs) (h, a) = count_list hs h"
    by (induction hs) auto
  then show ?thesis using assms by (simp add: calls_all_def count_list_distinct)
qed

lemma fan_out_once:
  assumes "wf_set S" "\<forall>k \<in> set (members (set_add S h)). cb k a = Returns"
  shows "\<exists>t. Set_forEach (\<lambda>t. set_add S h) (call_consumer cb a) 0 p = Some (Inr t)
           \<and> count_list (drop (length (calls p)) (calls t)) (h, a) = 1"
proof (rule calls_all_count)
  show "calls_all (Set_forEach (\<lambda>t. set_add S h) (call_consumer cb a) 0 p) p a (members (set_add S h))"
    using assms(2) by (rule fan_out_all)
  show "distinct (members (set_add S h))" using wf_set_add[OF assms(1)] by (simp add: wf_set_def)
  show "h \<in> set (members (set_add S h))" by (simp add: set_members set_has_set_add)
qed

text \<open>
  C10 (idempotent registration). At each of the three registries, registering the same
  function twice gives the state that registering it once gives; the function is then in
  the registry once, one payload or event calls it once (consumers that leave the
  registry alone, respectively do not throw), and one unregister call removes it.
\<close>

theorem registration_idempotent:
  "onMessage h (onMessage h s) = onMessage h s
   \<and> HardwareEvents_on tag h (HardwareEvents_on tag h p) = HardwareEvents_on tag h p
   \<and> DeviceControls_on ch h (DeviceControls_on ch h p) = DeviceControls_on ch h p
   \<and> (wf_set (messageHandlers s) \<longrightarrow> count_list (members (messageHandlers (onMessage h s))) h = 1)
   \<and> (wf_set (set_of (listeners p tag)) \<longrightarrow>
         count_list (members (set_of (listeners (HardwareEvents_on tag h p) tag))) h = 1)
   \<and> (wf_set (set_of (eventListeners p ch)) \<longrightarrow>
         count_list (members (set_of (eventListeners (DeviceControls_on ch h p) ch))) h = 1)
   \<and> \<not> set_has (messageHandlers (offMessage h (onMessage h (onMessage h s)))) h
   \<and> \<not> set_has (set_of (listeners (HardwareEvents_off tag h
                        (HardwareEvents_on tag h (HardwareEvents_on tag h p))) tag)) h
   \<and> \<not> set_has (set_of (eventListeners (DeviceControls_off ch h
                        (DeviceControls_on ch h (DeviceControls_on ch h p))) ch)) h
   \<and> (wf_set (messageHandlers s)
        \<and> (\<forall>k \<in> set (members (messageHandlers (onMessage h s))). leaves_registry beh (enhance parse d) k) \<longrightarrow>
         (\<exists>s'. onPluginMessage parse beh d (onMessage h (onMessage h s)) = Some (Inr s')
              \<and> count_list (map fst (delivered (onMessage h (onMessage h s)) s')) h = 1))
   \<and> (wf_set (set_of (listeners p tag))
        \<and> (\<forall>k \<in> set (members (set_of (listeners (HardwareEvents_on tag h p) tag))). cb k NoArgs = Returns) \<longrightarrow>
         (\<exists>t. emit cb tag (HardwareEvents_on tag h (HardwareEvents_on tag h p)) = Some (Inr t)
              \<and> count_list (drop (length (calls p)) (calls t)) (h, NoArgs) = 1))
   \<and> (wf_set (set_of (eventListeners p sideButton))
        \<and> (\<forall>k \<in> set (members (set_of (eventListeners (DeviceControls_on sideButton h p) sideButton))).
              cb k (SideButtonArgs ev) = Returns) \<longrightarrow>
         (\<exists>t. handleSideButtonClick cb ev (DeviceControls_on sideButton h (DeviceControls_on sideButton h p))
                 = Some (Inr t)
              \<and> count_list (drop (length (calls p)) (calls t)) (h, SideButtonArgs ev) = 1))
   \<and> (wf_set (set_of (eventListeners p scrollWheel))
        \<and> (\<forall>k \<in> set (members (set_of (eventListeners (DeviceControls_on scrollWheel h p) scrollWheel))).
              cb k (ScrollWheelArgs dat) = Returns) \<longrightarrow>
         (\<exists>t. handleScrollWheel cb dat (DeviceControls_on scrollWheel h (DeviceControls_on scrollWheel h p))
                 = Some (Inr t)
              \<and> count_list (drop (length (calls p)) (calls t)) (h, ScrollWheelArgs dat) = 1))"
proof -
  have a4: "count_list (members (messageHandlers (onMessage h s))) h = 1" if "wf_set (messageHandlers s)"
    using that by (simp add: onMessage_def count_registered)
  have a5: "count_list (members (set_of (listeners (HardwareEvents_on tag h p) tag))) h = 1"
    if "wf_set (set_of (listeners p tag))"
    using that by (simp add: HardwareEvents_on_set set_of_def count_registered)
  have a6: "count_list (members (set_of (eventListeners (DeviceControls_on ch h p) ch))) h = 1"
    if "wf_set (set_of (eventListeners p ch))"
    using that by (simp add: DeviceControls_on_set set_of_def count_registered)
  have a7: "\<not> set_has (messageHandlers (offMessage h (onMessage h (onMessage h s)))) h"
    by (simp add: offMessage_def not_has_set_delete)
  have a8: "\<not> set_has (set_of (listeners (HardwareEvents_off tag h
                        (HardwareEvents_on tag h (HardwareEvents_on tag h p))) tag)) h"
    by (simp add: HardwareEvents_off_set not_has_set_delete)
  have a9: "\<not> set_has (set_of (eventListeners (DeviceControls_off ch h
                        (DeviceControls_on ch h (DeviceControls_on ch h p))) ch)) h"
    by (simp add: DeviceControls_off_set not_has_set_delete)
  have a10: "\<exists>s'. onPluginMessage parse beh d (onMessage h (onMessage h s)) = Some (Inr s')
              \<and> count_list (map fst (delivered (onMessage h (onMessage h s)) s')) h = 1"
    if "wf_set (messageHandlers s)
        \<and> (\<forall>k \<in> set (members (messageHandlers (onMessage h s))). leaves_registry beh (enhance parse d) k)"
  proof -
    have w: "wf_set (messageHandlers (onMessage h s))"
      using that by (simp add: onMessage_def wf_set_add)
    have q: "\<forall>k \<in> set (members (messageHandlers (onMessage h s))). removes_only_itself beh (enhance parse d) k"
      using that by (simp add: leaves_registry_def removes_only_itself_def)
    from dispatch_self_removal[OF w q] obtain s' where
      r: "onPluginMessage parse beh d (onMessage h s) = Some (Inr s')"
      and i: "invoked s' = invoked (onMessage h s) @ map (\<lambda>k. (k, enhance parse d)) (members (messageHandlers (onMessage h s)))"
      by blast
    have "map fst (delivered (onMessage h s) s') = members (messageHandlers (onMessage h s))"
      by (simp add: delivered_def i comp_def)
    then have "count_list (map fst (delivered (onMessage h s) s')) h = 1"
      using a4 that by simp
    then show ?thesis using r by (auto simp: onMessage_twice)
  qed
  have calls_on: "calls (HardwareEvents_on tag h p) = calls p" "calls (DeviceControls_on c' h p) = calls p" for c'
    by (simp_all add: HardwareEvents_on_def DeviceControls_on_def split: option.splits)
  have a11: "\<exists>t. emit cb tag (HardwareEvents_on tag h (HardwareEvents_on tag h p)) = Some (Inr t)
              \<and> count_list (drop (length (calls p)) (calls t)) (h, NoArgs) = 1"
    if "wf_set (set_of (listeners p tag))
        \<and> (\<forall>k \<in> set (members (set_of (listeners (HardwareEvents_on tag h p) tag))). cb k NoArgs = Returns)"
    using that fan_out_once[of "set_of (listeners p tag)" h cb NoArgs "HardwareEvents_on tag h p"]
    by (simp add: HardwareEvents_on_twice emit_def HardwareEvents_on_set set_of_def calls_on)
  have a12: "\<exists>t. handleSideButtonClick cb ev (DeviceControls_on sideButton h (DeviceControls_on sideButton h p))
                 = Some (Inr t)
              \<and> count_list (drop (length (calls p)) (calls t)) (h, SideButtonArgs ev) = 1"
    if "wf_set (set_of (eventListeners p sideButton))
        \<and> (\<forall>k \<in> set (members (set_of (eventListeners (DeviceControls_on sideButton h p) sideButton))).
              cb k (SideButtonArgs ev) = Returns)"
    using that fan_out_once[of "set_of (eventListeners p sideButton)" h cb "SideButtonArgs ev"
        "DeviceControls_on sideButton h p"]
    by (simp add: DeviceControls_on_twice handleSideButtonClick_def DeviceControls_on_set set_of_def calls_on)
  have a13: "\<exists>t. handleScrollWheel cb dat (DeviceControls_on scrollWheel h (DeviceControls_on scrollWheel h p))
                 = Some (Inr t)
              \<and> count_list (drop (length (calls p)) (calls t)) (h, ScrollWheelArgs dat) = 1"
    if "wf_set (set_of (eventListeners p scrollWheel))
        \<and> (\<forall>k \<in> set (members (set_of (eventListeners (DeviceControls_on scrollWheel h p) scrollWheel))).
              cb k (ScrollWheelArgs dat) = Returns)"
    using that fan_out_once[of "set_of (eventListeners p scrollWheel)" h cb "ScrollWheelArgs dat"
        "DeviceControls_on scrollWheel h p"]
    by (simp add: DeviceControls_on_twice handleScrollWheel_def DeviceControls_on_set set_of_def calls_on)
  show ?thesis
    using onMessage_twice HardwareEvents_on_twice DeviceControls_on_twice a4 a5 a6 a7 a8 a9 a10 a11 a12 a13
    by (intro conjI impI) auto
qed

theorem registration_idempotent_witness:
  "onMessage 10 (onMessage 10 new_R1Messaging) = onMessage 10 new_R1Messaging
   \<and> count_list (members (messageHandlers (onMessage 10 new_R1Messaging))) 10 = 1
   \<and> (\<exists>s'. onPluginMessage JSON_parse plain scenario_A (onMessage 10 (onMessage 10 new_R1Messaging)) = Some (Inr s')
          \<and> count_list (map fst (delivered (onMessage 10 (onMessage 10 new_R1Messaging)) s')) 10 = 1)
   \<and> (\<exists>t. emit quiet sideClick (HardwareEvents_on sideClick 10 (HardwareEvents_on sideClick 10 boot)) = Some (Inr t)
          \<and> count_list (drop (length (calls boot)) (calls t)) (10, NoArgs) = 1)
   \<and> (\<exists>t. handleSideButtonClick quiet native_sideClick
              (DeviceControls_on sideButton 10 (DeviceControls_on sideButton 10 boot)) = Some (Inr t)
          \<and> count_list (drop (length (calls boot)) (calls t)) (10, SideButtonArgs native_sideClick) = 1)
   \<and> \<not> set_has (messageHandlers (offMessage 10 (onMessage 10 (onMessage 10 new_R1Messaging)))) 10"
proof -
  note r = registration_idempotent[where h = 10 and s = new_R1Messaging and tag = sideClick and p = boot
      and ch = sideButton and beh = plain and parse = JSON_parse and d = scenario_A and cb = quiet
      and ev = native_sideClick and dat = "\<lparr>direction = up, event = None\<rparr>"]
  have w1: "wf_set (messageHandlers new_R1Messaging)"
    by (simp add: wf_set_def new_R1Messaging_def members_def pending_def map_filter_simps)
  have w2: "wf_set (set_of (listeners boot sideClick))" "wf_set (set_of (eventListeners boot sideButton))"
    by (simp_all add: wf_set_def boot_def initializeEventListeners_def addEventListener_def set_of_def
        members_def pending_def map_filter_simps)
  have q1: "\<forall>k \<in> set (members (messageHandlers (onMessage 10 new_R1Messaging))).
              leaves_registry plain (enhance JSON_parse scenario_A) k"
    by (simp add: leaves_registry_def plain_def)
  have q2: "\<forall>k \<in> set (members (set_of (listeners (HardwareEvents_on sideClick 10 boot) sideClick))).
              quiet k NoArgs = Returns"
    by (simp add: quiet_def)
  have q3: "\<forall>k \<in> set (members (set_of (eventListeners (DeviceControls_on sideButton 10 boot) sideButton))).
              quiet k (SideButtonArgs native_sideClick) = Returns"
    by (simp add: quiet_def)
  show ?thesis using r w1 w2 q1 q2 q3 by blast
qed

end
